theory Spec2Isabelle
  imports Main "HOL-Library.Char_ord" "HOL-Library.List_Lexorder"
begin

section \<open>shhoook: an HTTP gateway that runs configured commands\<close>

text \<open>
  The development embeds \<^verbatim>\<open>src/src/main.go\<close>. Go strings are byte sequences, modelled
  as \<^typ>\<open>string\<close>; Go maps are partial functions; an \<^verbatim>\<open>error\<close> return is the left
  summand of a sum type. Functions of the Go standard library that the program calls are
  either modelled on the inputs the program gives them (package \<^verbatim>\<open>strings\<close>,
  \<^verbatim>\<open>http.Header.Get\<close>, \<^verbatim>\<open>sort.Slice\<close>, the \<^verbatim>\<open>http.ResponseWriter\<close>) or taken as
  parameters (\<^verbatim>\<open>time.ParseDuration\<close>, \<^verbatim>\<open>regexp.Compile\<close>, the child process). The
  program is built with Go 1.22, whose standard library is the one described.
\<close>

subsection \<open>Errors\<close>

datatype error =
    BadAuthFormat            \<comment> \<open>"bad auth format, want Header:Token"\<close>
  | EmptyHeaderToken         \<comment> \<open>"empty header/token"\<close>
  | WildcardMustBeLast       \<comment> \<open>"wildcard must be last"\<close>
  | RegexpError              \<comment> \<open>the error of \<^verbatim>\<open>regexp.Compile\<close>\<close>
  | MissingRequired          \<comment> \<open>"missing required fields (uri/method/auth/script)"\<close>
  | BadTTL error             \<comment> \<open>"bad ttl: ..."\<close>
  | BadURI error             \<comment> \<open>"bad uri: ..."\<close>
  | InvalidDuration          \<comment> \<open>an error of \<^verbatim>\<open>time.ParseDuration\<close>\<close>
  | NoEndpoints              \<comment> \<open>"no endpoint configs found in ..."\<close>
  | UnclosedPlaceholder string  \<comment> \<open>"unclosed placeholder in ..."\<close>

subsection \<open>Package strings, on the arguments the program passes\<close>

text \<open>\<^verbatim>\<open>strings.Index(s, sep)\<close> for a separator of one byte: the first position of the
  byte, \<open>None\<close> for Go's \<open>-1\<close>.\<close>

fun Index :: "string \<Rightarrow> char \<Rightarrow> nat option" where
  "Index [] c = None"
| "Index (x # xs) c = (if x = c then Some 0 else map_option Suc (Index xs c))"

definition HasPrefix :: "string \<Rightarrow> string \<Rightarrow> bool" where
  "HasPrefix s p = (take (length p) s = p)"

definition TrimPrefix :: "string \<Rightarrow> string \<Rightarrow> string" where
  "TrimPrefix s p = (if HasPrefix s p then drop (length p) s else s)"

text \<open>\<^verbatim>\<open>strings.Split(s, sep)\<close> for a separator of one byte; the result is never empty.\<close>

fun Split :: "string \<Rightarrow> char \<Rightarrow> string list" where
  "Split [] c = [[]]"
| "Split (x # xs) c =
     (if x = c then [] # Split xs c
      else (case Split xs c of [] \<Rightarrow> [[x]] | w # ws \<Rightarrow> (x # w) # ws))"

text \<open>\<^verbatim>\<open>strings.SplitN(s, sep, 2)\<close> for a separator of one byte: the whole string when
  the separator does not occur, else the parts before and after its first occurrence.\<close>

definition SplitN2 :: "string \<Rightarrow> char \<Rightarrow> string list" where
  "SplitN2 s c = (case Index s c of None \<Rightarrow> [s] | Some i \<Rightarrow> [take i s, drop (Suc i) s])"

text \<open>
  \<^verbatim>\<open>strings.TrimSpace\<close> removes the white space of Unicode from both ends of a text.
  \<open>spaceRunes\<close> are the characters \<^verbatim>\<open>unicode.IsSpace\<close> accepts, in UTF-8: tab, line feed,
  vertical tab, form feed, carriage return, space, U+0085, U+00A0, U+1680, U+2000 to
  U+200A, U+2028, U+2029, U+202F, U+205F and U+3000. A byte that is not part of a valid
  encoding is no white space. \<open>cutPrefix ps s\<close> is what follows the first of the texts
  \<open>ps\<close> that \<open>s\<close> starts with.
\<close>

definition spaceRunes :: "string list" where
  "spaceRunes =
     [[CHR 0x09], [CHR 0x0A], [CHR 0x0B], [CHR 0x0C], [CHR 0x0D], [CHR 0x20],
      [CHR 0xC2, CHR 0x85], [CHR 0xC2, CHR 0xA0], [CHR 0xE1, CHR 0x9A, CHR 0x80],
      [CHR 0xE2, CHR 0x80, CHR 0x80], [CHR 0xE2, CHR 0x80, CHR 0x81],
      [CHR 0xE2, CHR 0x80, CHR 0x82], [CHR 0xE2, CHR 0x80, CHR 0x83],
      [CHR 0xE2, CHR 0x80, CHR 0x84], [CHR 0xE2, CHR 0x80, CHR 0x85],
      [CHR 0xE2, CHR 0x80, CHR 0x86], [CHR 0xE2, CHR 0x80, CHR 0x87],
      [CHR 0xE2, CHR 0x80, CHR 0x88], [CHR 0xE2, CHR 0x80, CHR 0x89],
      [CHR 0xE2, CHR 0x80, CHR 0x8A], [CHR 0xE2, CHR 0x80, CHR 0xA8],
      [CHR 0xE2, CHR 0x80, CHR 0xA9], [CHR 0xE2, CHR 0x80, CHR 0xAF],
      [CHR 0xE2, CHR 0x81, CHR 0x9F], [CHR 0xE3, CHR 0x80, CHR 0x80]]"

fun cutPrefix :: "string list \<Rightarrow> string \<Rightarrow> string option" where
  "cutPrefix [] s = None"
| "cutPrefix (p # ps) s =
     (if p \<noteq> [] \<and> HasPrefix s p then Some (drop (length p) s) else cutPrefix ps s)"

function trimPrefixes :: "string list \<Rightarrow> string \<Rightarrow> string" where
  "trimPrefixes ps s = (case cutPrefix ps s of None \<Rightarrow> s | Some rest \<Rightarrow> trimPrefixes ps rest)"
  by pat_completeness auto
termination
proof (relation "measure (\<lambda>(ps, s). length s)")
  show "wf (measure (\<lambda>(ps, s). length s))" by simp
next
  fix ps :: "string list" and s rest :: string
  assume "cutPrefix ps s = Some rest"
  then have "length rest < length s"
  proof (induction ps)
    case Nil
    then show ?case by simp
  next
    case (Cons p ps)
    show ?case
    proof (cases "p \<noteq> [] \<and> HasPrefix s p")
      case True
      then have "length (take (length p) s) = length p" by (simp add: HasPrefix_def)
      then have le: "length p \<le> length s" by simp
      from True have pos: "0 < length p" by simp
      from True Cons.prems have "rest = drop (length p) s" by simp
      then have "length rest = length s - length p" by simp
      with le pos show ?thesis by arith
    next
      case False
      with Cons show ?thesis by simp
    qed
  qed
  then show "((ps, rest), (ps, s)) \<in> measure (\<lambda>(ps, s). length s)" by simp
qed

definition TrimSpace :: "string \<Rightarrow> string" where
  "TrimSpace s = rev (trimPrefixes (map rev spaceRunes) (rev (trimPrefixes spaceRunes s)))"

text \<open>\<^verbatim>\<open>strings.TrimRight(s, cutset)\<close> for a cutset of one byte.\<close>

definition TrimRight :: "string \<Rightarrow> char \<Rightarrow> string" where
  "TrimRight s c = rev (dropWhile (\<lambda>x. x = c) (rev s))"

subsection \<open>Package regexp\<close>

text \<open>
  A compiled expression, \<^verbatim>\<open>*regexp.Regexp\<close>, is given by the two methods the program
  calls on it. \<open>FindStringSubmatch re p\<close> is \<open>None\<close> for Go's \<^verbatim>\<open>nil\<close> (no match), else the
  text of the whole match followed by the texts of the capture groups; \<open>SubexpNames re\<close>
  are the names of the groups, element 0 being the empty name of the whole expression.
\<close>

record Regexp =
  FindStringSubmatch :: "string \<Rightarrow> string list option"
  SubexpNames :: "string list"

text \<open>
  \<^verbatim>\<open>compileURI\<close> writes the expression \<^verbatim>\<open>^\<close>, then for every non-empty segment a
  \<^verbatim>\<open>/\<close> followed by one of three pieces, then \<^verbatim>\<open>$\<close>. The expression written is
  represented by the list of its pieces:
  \<^item> \<open>Literal s\<close> is the text \<^verbatim>\<open>regexp.QuoteMeta(s)\<close>;
  \<^item> \<open>Param name\<close> is the text \<^verbatim>\<open>(?P<\<close>, the name, \<^verbatim>\<open>>[^/]+)\<close>;
  \<^item> \<open>Wild name\<close> is the text \<^verbatim>\<open>(?P<\<close>, the name, \<^verbatim>\<open>>.*)\<close>.
  The name is the segment without its first character, whatever it holds.
  \<^verbatim>\<open>regexp.Compile\<close> on the text of the pieces is a parameter \<open>Compile\<close> of the functions
  below.
\<close>

datatype seg = Literal string | Param string | Wild string

subsection \<open>compileURI\<close>

text \<open>The loop of \<^verbatim>\<open>compileURI\<close> over the segments: \<open>n\<close> is \<^verbatim>\<open>len(segs)\<close>, \<open>i\<close> the
  index of the segment at hand, and the pair holds the expression written so far and the
  flag \<^verbatim>\<open>wild\<close>.\<close>

fun compileURI_loop ::
  "nat \<Rightarrow> nat \<Rightarrow> string list \<Rightarrow> seg list \<times> bool \<Rightarrow> error + seg list \<times> bool" where
  "compileURI_loop n i [] acc = Inr acc"
| "compileURI_loop n i (s # ss) (b, wild) =
     (if s = [] then compileURI_loop n (i + 1) ss (b, wild)
      else if HasPrefix s '':'' then compileURI_loop n (i + 1) ss (b @ [Param (drop 1 s)], wild)
      else if HasPrefix s ''*'' then
        (if i \<noteq> n - 1 then Inl WildcardMustBeLast
         else compileURI_loop n (i + 1) ss (b @ [Wild (drop 1 s)], True))
      else compileURI_loop n (i + 1) ss (b @ [Literal s], wild))"

definition segments :: "string \<Rightarrow> string list" where
  "segments pattern = Split (TrimPrefix pattern ''/'') CHR ''/''"

definition compileURI :: "(seg list \<Rightarrow> error + Regexp) \<Rightarrow> string \<Rightarrow> error + Regexp \<times> bool" where
  "compileURI Compile pattern =
     (let segs = segments pattern in
      case compileURI_loop (length segs) 0 segs ([], False) of
        Inl e \<Rightarrow> Inl e
      | Inr (b, wild) \<Rightarrow>
          (case Compile b of Inl e \<Rightarrow> Inl e | Inr re \<Rightarrow> Inr (re, wild)))"

subsection \<open>Endpoints and their loading\<close>

text \<open>
  The struct \<^verbatim>\<open>Endpoint\<close>. The first eight fields are read from the JSON definition, the
  last five are compiled by \<^verbatim>\<open>mustEndpointFromFile\<close>. A \<^verbatim>\<open>nil\<close> map reads like the
  empty map. \<open>timeout\<close> is a \<^verbatim>\<open>time.Duration\<close>, a number of nanoseconds. \<open>Error\<close> is a Go
  \<^verbatim>\<open>int\<close>; the decoder refuses a number that does not fit, and nothing below computes
  with it.
\<close>

record Endpoint =
  URI :: string
  Method :: string
  Query :: "string \<rightharpoonup> string"
  Body :: "string \<rightharpoonup> string"
  Auth :: string
  TTL :: string
  Error :: int
  Script :: "string list"
  pathRe :: Regexp
  wildcard :: bool
  header :: string
  token :: string
  timeout :: int

definition parseAuth :: "string \<Rightarrow> error + string \<times> string" where
  "parseAuth a =
     (let parts = SplitN2 a CHR '':'' in
      if length parts \<noteq> 2 then Inl BadAuthFormat
      else
        (let h = TrimSpace (parts ! 0); t = TrimSpace (parts ! 1) in
         if h = [] \<or> t = [] then Inl EmptyHeaderToken else Inr (h, t)))"

text \<open>
  \<^verbatim>\<open>mustEndpointFromFile\<close>, from the point where the file has been read and decoded into
  the struct: \<open>ep\<close> is the decoded definition. \<open>ParseDuration\<close> stands for
  \<^verbatim>\<open>time.ParseDuration\<close> and \<open>Compile\<close> for \<^verbatim>\<open>regexp.Compile\<close>.
\<close>

definition mustEndpointFromFile ::
  "(string \<Rightarrow> error + int) \<Rightarrow> (seg list \<Rightarrow> error + Regexp) \<Rightarrow> Endpoint \<Rightarrow> error + Endpoint" where
  "mustEndpointFromFile ParseDuration Compile ep =
     (if URI ep = [] \<or> Method ep = [] \<or> Auth ep = [] \<or> length (Script ep) = 0
      then Inl MissingRequired
      else
        (case parseAuth (Auth ep) of
           Inl e \<Rightarrow> Inl e
         | Inr (h, t) \<Rightarrow>
             (let ep_a = ep\<lparr>header := h, token := t\<rparr>;
                  ep_b = (if TTL ep_a = [] then ep_a\<lparr>TTL := ''8s''\<rparr> else ep_a)
              in case ParseDuration (TTL ep_b) of
                   Inl e \<Rightarrow> Inl (BadTTL e)
                 | Inr d \<Rightarrow>
                     (let ep_c = ep_b\<lparr>timeout := d\<rparr>;
                          ep_d = (if Error ep_c = 0 then ep_c\<lparr>Error := 500\<rparr> else ep_c)
                      in case compileURI Compile (URI ep_d) of
                           Inl e \<Rightarrow> Inl (BadURI e)
                         | Inr (re, wild) \<Rightarrow> Inr (ep_d\<lparr>pathRe := re, wildcard := wild\<rparr>)))))"





text \<open>
  \<^verbatim>\<open>time.ParseDuration\<close> on the texts made of an optional sign and either the single
  digit \<^verbatim>\<open>0\<close> or one whole number followed by a unit of ASCII letters. A text with a
  fraction, with several numbers or with the micro sign is outside this fragment, which
  answers it with \<open>InvalidDuration\<close>; the theorems below hold for every parser and use
  this one only at concrete inputs of the fragment.
\<close>

definition isDigit :: "char \<Rightarrow> bool" where
  "isDigit c = (CHR ''0'' \<le> c \<and> c \<le> CHR ''9'')"

definition digitVal :: "char \<Rightarrow> int" where
  "digitVal c = int (of_char c) - 48"

definition leadingInt :: "string \<Rightarrow> int" where
  "leadingInt ds = foldl (\<lambda>x c. x * 10 + digitVal c) 0 ds"

definition unitMap :: "string \<rightharpoonup> int" where
  "unitMap =
     [''ns'' \<mapsto> 1, ''us'' \<mapsto> 1000, ''ms'' \<mapsto> 1000000, ''s'' \<mapsto> 1000000000,
      ''m'' \<mapsto> 60000000000, ''h'' \<mapsto> 3600000000000]"

definition ParseDuration_whole :: "string \<Rightarrow> error + int" where
  "ParseDuration_whole orig =
     (let neg = (orig \<noteq> [] \<and> hd orig = CHR ''-'');
          s = (if orig \<noteq> [] \<and> (hd orig = CHR ''-'' \<or> hd orig = CHR ''+'') then tl orig else orig)
      in if s = ''0'' then Inr 0
         else
           (let ds = takeWhile isDigit s; u = dropWhile isDigit s in
            if ds = [] \<or> u = [] \<or> (\<exists>c \<in> set u. isDigit c \<or> c = CHR ''.'') then Inl InvalidDuration
            else
              (case unitMap u of
                 None \<Rightarrow> Inl InvalidDuration
               | Some unit \<Rightarrow>
                   (let v = leadingInt ds in
                    if v > 2 ^ 63 div unit then Inl InvalidDuration
                    else if neg then Inr (- (v * unit))
                    else if v * unit > 2 ^ 63 - 1 then Inl InvalidDuration
                    else Inr (v * unit)))))"

subsection \<open>Expressions whose groups have plain names\<close>

text \<open>
  What \<^verbatim>\<open>regexp.Compile\<close> gives for a list of pieces in which no name holds the character
  \<^verbatim>\<open>>\<close>, every text is valid UTF-8 and the expression is not longer than
  \<^verbatim>\<open>regexp.Compile\<close> accepts. The name \<^verbatim>\<open>regexp.Compile\<close> reads for a group
  ends at the first \<^verbatim>\<open>>\<close> of the text, which is then the one \<^verbatim>\<open>compileURI\<close> wrote after
  the name; the expression is refused when a name read is not a capture name (one or more
  letters, digits or underscores), and otherwise the groups are the pieces \<open>Param\<close> and
  \<open>Wild\<close> as written. Matching follows Go's package \<^verbatim>\<open>regexp\<close> in its default mode: a
  quoted text matches itself and nothing else, the negated class \<^verbatim>\<open>[^/]\<close> matches a line
  feed, the dot matches every character but a line feed, a greedy repetition prefers the
  longest match, and \<^verbatim>\<open>$\<close> matches only where the text ends.

  A name that holds \<^verbatim>\<open>>\<close> is read up to that character only, and what follows it is
  read as part of the expression: such pieces are outside this fragment, which answers
  them with \<open>RegexpError\<close> like every other name that is not a capture name, where
  \<^verbatim>\<open>regexp.Compile\<close> may accept them. The theorems below hold for every \<open>Compile\<close> and
  use this one only at concrete templates of the fragment.
\<close>

fun first_some :: "('a \<Rightarrow> 'b option) \<Rightarrow> 'a list \<Rightarrow> 'b option" where
  "first_some f [] = None"
| "first_some f (x # xs) = (case f x of Some y \<Rightarrow> Some y | None \<Rightarrow> first_some f xs)"

text \<open>The submatches of the capture groups, in order, when the whole path matches.\<close>

fun captures :: "seg list \<Rightarrow> string \<Rightarrow> string list option" where
  "captures [] p = (if p = [] then Some [] else None)"
| "captures (Literal l # ss) p =
     (case p of
        [] \<Rightarrow> None
      | c # rest \<Rightarrow>
          if c = CHR ''/'' \<and> HasPrefix rest l then captures ss (drop (length l) rest)
          else None)"
| "captures (Param name # ss) p =
     (case p of
        [] \<Rightarrow> None
      | c # rest \<Rightarrow>
          if c = CHR ''/'' \<and> takeWhile (\<lambda>x. x \<noteq> CHR ''/'') rest \<noteq> []
          then map_option (\<lambda>cs. takeWhile (\<lambda>x. x \<noteq> CHR ''/'') rest # cs)
                 (captures ss (dropWhile (\<lambda>x. x \<noteq> CHR ''/'') rest))
          else None)"
| "captures (Wild name # ss) p =
     (case p of
        [] \<Rightarrow> None
      | c # rest \<Rightarrow>
          if c = CHR ''/''
          then first_some
                 (\<lambda>k. if CHR 0x0A \<in> set (take k rest) then None
                      else map_option (\<lambda>cs. take k rest # cs) (captures ss (drop k rest)))
                 (rev [0..<Suc (length rest)])
          else None)"

fun seg_names :: "seg list \<Rightarrow> string list" where
  "seg_names [] = []"
| "seg_names (Literal l # ss) = seg_names ss"
| "seg_names (Param name # ss) = name # seg_names ss"
| "seg_names (Wild name # ss) = name # seg_names ss"

fun is_Wild :: "seg \<Rightarrow> bool" where
  "is_Wild (Wild n) = True"
| "is_Wild _ = False"

text \<open>The compiled expression of the pieces: element 0 of a match is the whole match,
  which is the whole path since the expression is anchored at both ends.\<close>

definition regexp_of :: "seg list \<Rightarrow> Regexp" where
  "regexp_of segs =
     \<lparr>FindStringSubmatch = (\<lambda>p. map_option (\<lambda>cs. p # cs) (captures segs p)),
      SubexpNames = [] # seg_names segs\<rparr>"

definition isWordChar :: "char \<Rightarrow> bool" where
  "isWordChar c =
     (c = CHR ''_'' \<or> (CHR ''0'' \<le> c \<and> c \<le> CHR ''9'')
      \<or> (CHR ''a'' \<le> c \<and> c \<le> CHR ''z'') \<or> (CHR ''A'' \<le> c \<and> c \<le> CHR ''Z''))"

definition isValidCaptureName :: "string \<Rightarrow> bool" where
  "isValidCaptureName name = (name \<noteq> [] \<and> list_all isWordChar name)"

definition regexp_Compile_plain :: "seg list \<Rightarrow> error + Regexp" where
  "regexp_Compile_plain segs =
     (if list_all isValidCaptureName (seg_names segs) then Inr (regexp_of segs)
      else Inl RegexpError)"

subsection \<open>pathVars\<close>

text \<open>The loop of \<^verbatim>\<open>pathVars\<close> over \<^verbatim>\<open>SubexpNames()\<close>, \<open>i\<close> the index at hand.\<close>

fun pathVars_loop ::
  "nat \<Rightarrow> string list \<Rightarrow> string list \<Rightarrow> (string \<rightharpoonup> string) \<Rightarrow> (string \<rightharpoonup> string)" where
  "pathVars_loop i [] m out = out"
| "pathVars_loop i (name # names) m out =
     (if i = 0 \<or> name = [] then pathVars_loop (i + 1) names m out
      else pathVars_loop (i + 1) names m (out(name \<mapsto> m ! i)))"

definition pathVars :: "Endpoint \<Rightarrow> string \<Rightarrow> (string \<rightharpoonup> string) option" where
  "pathVars ep p =
     (case FindStringSubmatch (pathRe ep) p of
        None \<Rightarrow> None
      | Some m \<Rightarrow> Some (pathVars_loop 0 (SubexpNames (pathRe ep)) m Map.empty))"

subsection \<open>Requests\<close>

text \<open>
  What the handler reads of an \<^verbatim>\<open>*http.Request\<close>: the method, \<^verbatim>\<open>r.URL.Path\<close>, the
  parsed query \<^verbatim>\<open>r.URL.Query()\<close> and the headers (both map a key to the list of its
  values), and the body. \<open>r_Body\<close> is \<open>None\<close> when \<^verbatim>\<open>r.Body\<close> is \<^verbatim>\<open>nil\<close>; otherwise
  it holds what \<^verbatim>\<open>dec.Decode(&body)\<close> gives after \<^verbatim>\<open>dec.UseNumber()\<close>: an error, or
  the fields of the JSON object.
\<close>

text \<open>
  A decoded JSON value of Go's type \<^verbatim>\<open>any\<close>, by the cases \<^verbatim>\<open>toString\<close> tells apart.
  \<open>ANumber\<close> is a \<^verbatim>\<open>json.Number\<close>: the text of the number as the body spells it, which
  is what a decoder with \<^verbatim>\<open>UseNumber\<close> stores. \<open>AFloat64\<close> is a \<^verbatim>\<open>float64\<close>, given by the
  text \<^verbatim>\<open>fmt.Sprintf("%f", t)\<close> prints for it (floating point is not modelled); a decoder
  with \<^verbatim>\<open>UseNumber\<close> never yields one. \<open>AOther\<close> is a value of any other type (\<^verbatim>\<open>nil\<close>, a
  slice, a map), given by the bytes \<^verbatim>\<open>json.Marshal\<close> returns for it, its compact JSON
  text.
\<close>

datatype any = AString string | ANumber string | AFloat64 string | ABool bool | AOther string

datatype decode_result = DecodeError | Decoded "string \<rightharpoonup> any"

record Request =
  r_Method :: string
  r_Path :: string
  r_Query :: "string \<rightharpoonup> string list"
  r_Header :: "string \<rightharpoonup> string list"
  r_Body :: "decode_result option"

text \<open>\<^verbatim>\<open>url.Values.Get\<close>: the first value of the key, the empty string without one.\<close>

definition Values_Get :: "(string \<rightharpoonup> string list) \<Rightarrow> string \<Rightarrow> string" where
  "Values_Get v key = (case v key of None \<Rightarrow> [] | Some [] \<Rightarrow> [] | Some (x # xs) \<Rightarrow> x)"

text \<open>
  \<^verbatim>\<open>textproto.CanonicalMIMEHeaderKey\<close>: a key with a byte that is not a header field
  byte is returned as it is; in any other key the first letter and every letter after a
  hyphen become upper case and the other letters lower case.
\<close>

definition validHeaderFieldByte :: "char \<Rightarrow> bool" where
  "validHeaderFieldByte c =
     ((CHR ''0'' \<le> c \<and> c \<le> CHR ''9'') \<or> (CHR ''a'' \<le> c \<and> c \<le> CHR ''z'')
      \<or> (CHR ''A'' \<le> c \<and> c \<le> CHR ''Z'') \<or> c \<in> set ''!#$%&*+-.^_|~'' \<or> c = CHR 0x27 \<or> c = CHR 0x60)"

definition toUpper :: "char \<Rightarrow> char" where
  "toUpper c = (if CHR ''a'' \<le> c \<and> c \<le> CHR ''z'' then char_of (of_char c - (32::nat)) else c)"

definition toLower :: "char \<Rightarrow> char" where
  "toLower c = (if CHR ''A'' \<le> c \<and> c \<le> CHR ''Z'' then char_of (of_char c + (32::nat)) else c)"

fun canonical_loop :: "bool \<Rightarrow> string \<Rightarrow> string" where
  "canonical_loop upper [] = []"
| "canonical_loop upper (c # cs) =
     (let c' = (if upper then toUpper c else toLower c)
      in c' # canonical_loop (c' = CHR ''-'') cs)"

definition CanonicalMIMEHeaderKey :: "string \<Rightarrow> string" where
  "CanonicalMIMEHeaderKey s =
     (if list_all validHeaderFieldByte s then canonical_loop True s else s)"

text \<open>\<^verbatim>\<open>http.Header.Get\<close>: the first value stored under the canonical form of the key.\<close>

definition Header_Get :: "(string \<rightharpoonup> string list) \<Rightarrow> string \<Rightarrow> string" where
  "Header_Get h key =
     (case h (CanonicalMIMEHeaderKey key) of None \<Rightarrow> [] | Some [] \<Rightarrow> [] | Some (x # xs) \<Rightarrow> x)"

subsection \<open>toString and mergeParams\<close>

definition toString :: "any \<Rightarrow> string" where
  "toString v =
     (case v of
        AString t \<Rightarrow> t
      | ANumber t \<Rightarrow> t
      | AFloat64 f \<Rightarrow> TrimRight (TrimRight f CHR ''0'') CHR ''.''
      | ABool t \<Rightarrow> (if t then ''true'' else ''false'')
      | AOther b \<Rightarrow> b)"

text \<open>The loop \<^verbatim>\<open>for k, v := range m { params[k] = v }\<close>. The keys of a Go map are
  distinct, so the order of the iteration does not show in the result.\<close>

definition range_assign :: "(string \<rightharpoonup> string) \<Rightarrow> (string \<rightharpoonup> string) \<Rightarrow> (string \<rightharpoonup> string)" where
  "range_assign params m = (\<lambda>k. case m k of Some v \<Rightarrow> Some v | None \<Rightarrow> params k)"

definition mergeParams :: "Endpoint \<Rightarrow> (string \<rightharpoonup> string) \<Rightarrow> Request \<Rightarrow> (string \<rightharpoonup> string)" where
  "mergeParams ep pv r =
     (let params0 = Map.empty;
          params1 = range_assign params0 (Query ep);
          params2 = range_assign params1 (Body ep);
          params3 = range_assign params2 pv;
          q = r_Query r;
          params4 = (\<lambda>k. case q k of Some vs \<Rightarrow> Some (Values_Get q k) | None \<Rightarrow> params3 k)
      in case r_Body r of
           None \<Rightarrow> params4
         | Some DecodeError \<Rightarrow> params4
         | Some (Decoded body) \<Rightarrow>
             (\<lambda>k. case body k of Some v \<Rightarrow> Some (toString v) | None \<Rightarrow> params4 k))"

subsection \<open>applyTemplate\<close>

text \<open>\<^verbatim>\<open>params[name]\<close>: the empty string for a missing key.\<close>

definition lookup :: "(string \<rightharpoonup> string) \<Rightarrow> string \<Rightarrow> string" where
  "lookup params name = (case params name of None \<Rightarrow> [] | Some v \<Rightarrow> v)"

text \<open>
  The inner loop \<^verbatim>\<open>for { ... }\<close> of \<^verbatim>\<open>applyTemplate\<close> on one token, \<open>res\<close> the text at
  hand. The loop has no bound, so it is a partial function: \<open>None\<close> is a run that never
  leaves the loop.
\<close>

partial_function (option) expand ::
  "(string \<rightharpoonup> string) \<Rightarrow> string \<Rightarrow> string \<Rightarrow> (error + string) option" where
  "expand params tok res =
     (case Index res CHR ''{'' of
        None \<Rightarrow> Some (Inr res)
      | Some s \<Rightarrow>
          (case Index (drop (s + 1) res) CHR ''}'' of
             None \<Rightarrow> Some (Inl (UnclosedPlaceholder tok))
           | Some e0 \<Rightarrow>
               (let e = e0 + (s + 1);
                    name = take (e - (s + 1)) (drop (s + 1) res);
                    val = lookup params name
                in expand params tok (take s res @ val @ drop (e + 1) res))))"

fun applyTemplate ::
  "string list \<Rightarrow> (string \<rightharpoonup> string) \<Rightarrow> (error + string list) option" where
  "applyTemplate [] params = Some (Inr [])"
| "applyTemplate (tok # tokens) params =
     (case expand params tok tok of
        None \<Rightarrow> None
      | Some (Inl e) \<Rightarrow> Some (Inl e)
      | Some (Inr res) \<Rightarrow>
          (case applyTemplate tokens params of
             None \<Rightarrow> None
           | Some (Inl e) \<Rightarrow> Some (Inl e)
           | Some (Inr out) \<Rightarrow> Some (Inr (res # out))))"

text \<open>The number of opening braces in a text: it bounds the rounds of the loop when
  no value brings a brace in.\<close>

definition braces :: "string \<Rightarrow> nat" where
  "braces s = length (filter (\<lambda>c. c = CHR ''{'') s)"

subsection \<open>The handler\<close>

text \<open>
  What \<^verbatim>\<open>cmd.CombinedOutput()\<close> under the context with the endpoint's timeout gives back:
  the captured output, the error (\<open>None\<close> for \<^verbatim>\<open>nil\<close>) and \<^verbatim>\<open>ctx.Err()\<close> as read
  afterwards. The child process itself is a parameter of the handler.
\<close>

datatype go_error = ExitError | DeadlineExceeded | Canceled | StartError

record ExecResult =
  out :: string
  err :: "go_error option"
  ctx_err :: "go_error option"

text \<open>
  A response, as the \<^verbatim>\<open>http.ResponseWriter\<close> of the server makes it of the calls of a
  handler: the status of the response, the content type when the handler (or
  \<^verbatim>\<open>http.Error\<close>) sets one, the bytes accepted as its body, and the statuses of the interim
  responses sent before it. \<open>TemplateError e\<close> is the text
  \<^verbatim>\<open>"bad template: " + err.Error()\<close> that \<^verbatim>\<open>http.Error\<close> writes. The server transmits
  the body unless the method of the request is \<^verbatim>\<open>HEAD\<close>, to which it sends the header
  alone.
\<close>

datatype payload = Bytes string | TemplateError error

record Response =
  status :: int
  content_type :: "string option"
  body :: payload
  informational :: "int list"

text \<open>What a handler ends with: a response, or a panic (\<^verbatim>\<open>argv[0]\<close> on an empty
  argument vector, \<^verbatim>\<open>WriteHeader\<close> with a status that is refused), after which the server
  closes the connection and no response is written.\<close>

datatype outcome = Reply Response | Panic

text \<open>
  The state of a \<^verbatim>\<open>ResponseWriter\<close> between the calls of a handler, and the methods
  \<^verbatim>\<open>WriteHeader\<close> and \<^verbatim>\<open>Write\<close> of \<^verbatim>\<open>net/http\<close>:
  \<^item> \<^verbatim>\<open>WriteHeader\<close> after the header has been written is ignored; with a status below
    100 or above 999 it panics (\<open>None\<close>); with a status from 100 to 199 other than 101 it
    sends an interim response and leaves the header unwritten; with any other status it
    writes the header;
  \<^item> \<^verbatim>\<open>Write\<close> first calls \<^verbatim>\<open>WriteHeader(http.StatusOK)\<close> when the header has not been
    written; it then accepts the bytes unless there are none or the status allows no body
    (a status from 100 to 199, 204 and 304), in which case it returns an error, which the
    handler ignores.
  \<open>sent\<close> is the response once the handler has returned.
\<close>

record ResponseWriter =
  wroteHeader :: bool
  w_status :: int
  w_content_type :: "string option"
  written :: string
  interim :: "int list"

definition new_ResponseWriter :: ResponseWriter where
  "new_ResponseWriter =
     \<lparr>wroteHeader = False, w_status = 0, w_content_type = None, written = [], interim = []\<rparr>"

definition WriteHeader :: "int \<Rightarrow> ResponseWriter \<Rightarrow> ResponseWriter option" where
  "WriteHeader code w =
     (if wroteHeader w then Some w
      else if code < 100 \<or> code > 999 then None
      else if code \<ge> 100 \<and> code \<le> 199 \<and> code \<noteq> 101 then Some (w\<lparr>interim := interim w @ [code]\<rparr>)
      else Some (w\<lparr>wroteHeader := True, w_status := code\<rparr>))"

definition bodyAllowedForStatus :: "int \<Rightarrow> bool" where
  "bodyAllowedForStatus s =
     (if s \<ge> 100 \<and> s \<le> 199 then False
      else if s = 204 then False
      else if s = 304 then False
      else True)"

definition Write :: "string \<Rightarrow> ResponseWriter \<Rightarrow> ResponseWriter" where
  "Write b w =
     (let w1 = (if \<not> wroteHeader w then w\<lparr>wroteHeader := True, w_status := 200\<rparr> else w) in
      if length b = 0 then w1
      else if \<not> bodyAllowedForStatus (w_status w1) then w1
      else w1\<lparr>written := written w1 @ b\<rparr>)"

definition sent :: "ResponseWriter \<Rightarrow> Response" where
  "sent w =
     \<lparr>status = (if wroteHeader w then w_status w else 200), content_type = w_content_type w,
      body = Bytes (written w), informational = interim w\<rparr>"

text \<open>The stages of the pipeline a request has entered, in order.\<close>

datatype stage = Resolve | Expand | Execute "string list" int

fun findEndpoint :: "Endpoint list \<Rightarrow> Request \<Rightarrow> (Endpoint \<times> (string \<rightharpoonup> string)) option" where
  "findEndpoint [] r = None"
| "findEndpoint (e # eps) r =
     (if r_Method r \<noteq> Method e then findEndpoint eps r
      else (case pathVars e (r_Path r) of
              Some vars \<Rightarrow> Some (e, vars)
            | None \<Rightarrow> findEndpoint eps r))"

text \<open>
  The end of the handler, from \<^verbatim>\<open>out, err := cmd.CombinedOutput()\<close> on: with an error,
  \<^verbatim>\<open>w.WriteHeader(ep.Error)\<close>, \<^verbatim>\<open>w.Write(out)\<close> and, when the error or the context
  is an exceeded deadline, \<^verbatim>\<open>w.Write\<close> of a line feed, the text \<^verbatim>\<open>(timeout)\<close> and a
  line feed; without one, the content type is set, then
  \<^verbatim>\<open>w.WriteHeader(http.StatusOK)\<close> and \<^verbatim>\<open>w.Write(out)\<close>.
\<close>

definition respond :: "Endpoint \<Rightarrow> ExecResult \<Rightarrow> outcome" where
  "respond ep res =
     (if err res \<noteq> None
      then
        (case WriteHeader (Error ep) new_ResponseWriter of
           None \<Rightarrow> Panic
         | Some w1 \<Rightarrow>
             (let w2 = Write (out res) w1;
                  w3 = (if err res = Some DeadlineExceeded \<or> ctx_err res = Some DeadlineExceeded
                        then Write (CHR 0x0A # ''(timeout)'' @ [CHR 0x0A]) w2 else w2)
              in Reply (sent w3)))
      else
        (case WriteHeader 200
                (new_ResponseWriter\<lparr>w_content_type := Some ''text/plain; charset=utf-8''\<rparr>) of
           None \<Rightarrow> Panic
         | Some w1 \<Rightarrow> Reply (sent (Write (out res) w1))))"

text \<open>\<^verbatim>\<open>http.Error\<close> (and \<^verbatim>\<open>http.NotFound\<close>, which calls it): the content type, the
  status, the message and a line feed.\<close>

definition http_Error :: "string \<Rightarrow> int \<Rightarrow> Response" where
  "http_Error msg code =
     \<lparr>status = code, content_type = Some ''text/plain; charset=utf-8'',
      body = Bytes (msg @ [CHR 0x0A]), informational = []\<rparr>"

text \<open>
  The function registered for the pattern \<^verbatim>\<open>/\<close>, on a request the \<^verbatim>\<open>ServeMux\<close> calls
  it with (the \<^verbatim>\<open>ServeMux\<close> answers a request for \<^verbatim>\<open>/health\<close> with the other function,
  and redirects a request whose path is not in its shortest form). The result is what the
  handler ends with and the stages the request has entered; \<open>None\<close> is a handler that
  never returns.
\<close>

definition handler ::
  "(string list \<Rightarrow> int \<Rightarrow> ExecResult) \<Rightarrow> Endpoint list \<Rightarrow> Request
     \<Rightarrow> (outcome \<times> stage list) option" where
  "handler run eps r =
     (case findEndpoint eps r of
        None \<Rightarrow> Some (Reply (http_Error ''404 page not found'' 404), [])
      | Some (ep, pv) \<Rightarrow>
          if Header_Get (r_Header r) (header ep) \<noteq> token ep
          then Some (Reply (http_Error ''unauthorized'' 401), [])
          else
            (let params = mergeParams ep pv r in
             case applyTemplate (Script ep) params of
               None \<Rightarrow> None
             | Some (Inl e) \<Rightarrow>
                 Some (Reply \<lparr>status = 400, content_type = Some ''text/plain; charset=utf-8'',
                        body = TemplateError e, informational = []\<rparr>, [Resolve, Expand])
             | Some (Inr argv) \<Rightarrow>
                 if argv = [] then Some (Panic, [Resolve, Expand])
                 else Some (respond ep (run argv (timeout ep)),
                            [Resolve, Expand, Execute argv (timeout ep)])))"

subsection \<open>Sample endpoints and requests\<close>

text \<open>An endpoint as \<^verbatim>\<open>mustEndpointFromFile\<close> compiles it, with the name \<open>id\<close> in both
  maps of defaults, and a request for it.\<close>

definition ep0 :: Endpoint where
  "ep0 =
     \<lparr>URI = ''/run/:id'', Method = ''GET'', Query = [''id'' \<mapsto> ''q''], Body = [''id'' \<mapsto> ''b''],
      Auth = ''X-Token: abc'', TTL = ''8s'', Error = 500, Script = [''echo'', ''id={id}''],
      pathRe = regexp_of [Literal ''run'', Param ''id''], wildcard = False, header = ''X-Token'',
      token = ''abc'', timeout = 8000000000\<rparr>"

definition req0 :: Request where
  "req0 =
     \<lparr>r_Method = ''GET'', r_Path = ''/run/42'', r_Query = [''id'' \<mapsto> [''u'']],
      r_Header = [''X-Token'' \<mapsto> [''abc'']],
      r_Body = Some (Decoded [''id'' \<mapsto> ANumber ''7''])\<rparr>"

text \<open>
  The definition file of \<open>ep0\<close> as decoded, a second endpoint whose template matches the
  same paths, and its definition. The field \<^verbatim>\<open>pathRe\<close> of a definition just decoded is
  \<^verbatim>\<open>nil\<close>, and nothing calls a method on it before \<^verbatim>\<open>mustEndpointFromFile\<close> replaces it;
  \<open>nil_Regexp\<close> stands in for it.
\<close>

definition nil_Regexp :: Regexp where
  "nil_Regexp = \<lparr>FindStringSubmatch = (\<lambda>p. None), SubexpNames = []\<rparr>"

definition def0 :: Endpoint where
  "def0 = ep0\<lparr>pathRe := nil_Regexp, wildcard := False, header := [], token := [], timeout := 0\<rparr>"

definition ep1 :: Endpoint where
  "ep1 = ep0\<lparr>URI := ''/run/:name'', Script := [''echo'', ''name={name}''],
              pathRe := regexp_of [Literal ''run'', Param ''name'']\<rparr>"


text \<open>An endpoint whose template ends in a wildcard, as compiled, and its definition.\<close>

definition ep_files :: Endpoint where
  "ep_files =
     ep0\<lparr>URI := ''/files/*rest'', pathRe := regexp_of [Literal ''files'', Wild ''rest''],
         wildcard := True\<rparr>"

definition def_files :: Endpoint where
  "def_files =
     ep_files\<lparr>pathRe := nil_Regexp, wildcard := False, header := [], token := [], timeout := 0\<rparr>"

text \<open>Three child processes: one that exits with status zero, one that exits with
  another status, one that the deadline of the context cuts off.\<close>

definition run_ok :: "string list \<Rightarrow> int \<Rightarrow> ExecResult" where
  "run_ok argv t = \<lparr>out = concat argv, err = None, ctx_err = None\<rparr>"

definition run_fail :: "string list \<Rightarrow> int \<Rightarrow> ExecResult" where
  "run_fail argv t = \<lparr>out = ''no'', err = Some ExitError, ctx_err = None\<rparr>"

definition run_slow :: "string list \<Rightarrow> int \<Rightarrow> ExecResult" where
  "run_slow argv t = \<lparr>out = ''zz'', err = Some ExitError, ctx_err = Some DeadlineExceeded\<rparr>"

section \<open>Facts about the embedding\<close>

subsection \<open>Loading\<close>

lemma parseAuth_nonempty: "parseAuth a = Inr (h, t) \<Longrightarrow> h \<noteq> [] \<and> t \<noteq> []"
  by (auto simp: parseAuth_def Let_def split: if_splits)

lemma mustEndpointFromFile_fields:
  assumes "mustEndpointFromFile P C d = Inr ep"
  shows "parseAuth (Auth d) = Inr (header ep, token ep)"
    and "P (if TTL d = [] then ''8s'' else TTL d) = Inr (timeout ep)"
    and "Error ep = (if Error d = 0 then 500 else Error d)"
    and "compileURI C (URI d) = Inr (pathRe ep, wildcard ep)"
    and "URI ep = URI d" and "Method ep = Method d" and "Script ep = Script d"
    and "Script ep \<noteq> []"
  using assms
  by (auto simp: mustEndpointFromFile_def Let_def split: if_splits sum.splits prod.splits)

lemma mustEndpointFromFile_bad_ttl:
  "P (if TTL d = [] then ''8s'' else TTL d) = Inl e \<Longrightarrow> \<exists>e'. mustEndpointFromFile P C d = Inl e'"
  by (auto simp: mustEndpointFromFile_def Let_def split: if_splits sum.splits prod.splits)


subsection \<open>Sorting\<close>









subsection \<open>The handler\<close>

lemma Header_Get_absent: "h (CanonicalMIMEHeaderKey key) = None \<Longrightarrow> Header_Get h key = []"
  by (simp add: Header_Get_def)

lemma handler_unauthorized:
  "findEndpoint eps r = Some (ep, pv) \<Longrightarrow> Header_Get (r_Header r) (header ep) \<noteq> token ep
   \<Longrightarrow> handler run eps r = Some (Reply (http_Error ''unauthorized'' 401), [])"
  by (simp add: handler_def)

lemma applyTemplate_length:
  "applyTemplate tokens params = Some (Inr argv) \<Longrightarrow> length argv = length tokens"
  by (induction tokens arbitrary: argv) (auto split: option.splits sum.splits)

lemma handler_runs:
  "findEndpoint eps r = Some (ep, pv) \<Longrightarrow> Header_Get (r_Header r) (header ep) = token ep
   \<Longrightarrow> applyTemplate (Script ep) (mergeParams ep pv r) = Some (Inr argv) \<Longrightarrow> Script ep \<noteq> []
   \<Longrightarrow> handler run eps r =
        Some (respond ep (run argv (timeout ep)), [Resolve, Expand, Execute argv (timeout ep)])"
  using applyTemplate_length[of "Script ep" "mergeParams ep pv r" argv]
  by (auto simp: handler_def)

lemma handler_bad_template:
  "findEndpoint eps r = Some (ep, pv) \<Longrightarrow> Header_Get (r_Header r) (header ep) = token ep
   \<Longrightarrow> applyTemplate (Script ep) (mergeParams ep pv r) = Some (Inl e)
   \<Longrightarrow> handler run eps r =
        Some (Reply \<lparr>status = 400, content_type = Some ''text/plain; charset=utf-8'',
               body = TemplateError e, informational = []\<rparr>, [Resolve, Expand])"
  by (simp add: handler_def)

lemma handler_not_found:
  "findEndpoint eps r = None \<Longrightarrow> handler run eps r = Some (Reply (http_Error ''404 page not found'' 404), [])"
  by (simp add: handler_def)




subsection \<open>The response to a command\<close>

lemma respond_success:
  "err res = None \<Longrightarrow>
   respond ep res =
     Reply \<lparr>status = 200, content_type = Some ''text/plain; charset=utf-8'',
            body = Bytes (out res), informational = []\<rparr>"
  by (auto simp: respond_def WriteHeader_def Write_def sent_def new_ResponseWriter_def
      bodyAllowedForStatus_def Let_def)

lemma respond_failure_with_body:
  "err res \<noteq> None \<Longrightarrow> 200 \<le> Error ep \<Longrightarrow> Error ep \<le> 999 \<Longrightarrow> Error ep \<noteq> 204
   \<Longrightarrow> Error ep \<noteq> 304 \<Longrightarrow>
   respond ep res =
     Reply \<lparr>status = Error ep, content_type = None,
            body = Bytes (out res @
              (if err res = Some DeadlineExceeded \<or> ctx_err res = Some DeadlineExceeded
               then CHR 0x0A # ''(timeout)'' @ [CHR 0x0A] else [])),
            informational = []\<rparr>"
  by (auto simp: respond_def WriteHeader_def Write_def sent_def new_ResponseWriter_def
      bodyAllowedForStatus_def Let_def)

lemma respond_failure_without_body:
  "err res \<noteq> None \<Longrightarrow> Error ep = 101 \<or> Error ep = 204 \<or> Error ep = 304 \<Longrightarrow>
   respond ep res =
     Reply \<lparr>status = Error ep, content_type = None, body = Bytes [], informational = []\<rparr>"
  by (auto simp: respond_def WriteHeader_def Write_def sent_def new_ResponseWriter_def
      bodyAllowedForStatus_def Let_def)

lemma respond_failure_interim:
  "err res \<noteq> None \<Longrightarrow> 100 \<le> Error ep \<Longrightarrow> Error ep \<le> 199 \<Longrightarrow> Error ep \<noteq> 101 \<Longrightarrow>
   respond ep res =
     Reply \<lparr>status = 200, content_type = None,
            body = Bytes (out res @
              (if err res = Some DeadlineExceeded \<or> ctx_err res = Some DeadlineExceeded
               then CHR 0x0A # ''(timeout)'' @ [CHR 0x0A] else [])),
            informational = [Error ep]\<rparr>"
  by (auto simp: respond_def WriteHeader_def Write_def sent_def new_ResponseWriter_def
      bodyAllowedForStatus_def Let_def)

lemma respond_failure_panic:
  "err res \<noteq> None \<Longrightarrow> Error ep < 100 \<or> 999 < Error ep \<Longrightarrow> respond ep res = Panic"
  by (auto simp: respond_def WriteHeader_def new_ResponseWriter_def)

subsection \<open>The selection of the endpoint\<close>




lemma mergeParams_lookup:
  "mergeParams ep pv r k =
     (case (case r_Body r of Some (Decoded b) \<Rightarrow> b k | _ \<Rightarrow> None) of
        Some v \<Rightarrow> Some (toString v)
      | None \<Rightarrow>
          if k \<in> dom (r_Query r) then Some (Values_Get (r_Query r) k)
          else (case pv k of
                  Some v \<Rightarrow> Some v
                | None \<Rightarrow> (case Body ep k of Some v \<Rightarrow> Some v | None \<Rightarrow> Query ep k)))"
  by (auto simp: mergeParams_def range_assign_def Let_def domIff
      split: option.splits decode_result.splits)

subsection \<open>The sample endpoints, evaluated\<close>

lemmas eval_defs = mustEndpointFromFile_def parseAuth_def SplitN2_def TrimSpace_def spaceRunes_def
  ParseDuration_whole_def isDigit_def leadingInt_def digitVal_def unitMap_def
  compileURI_def segments_def TrimPrefix_def HasPrefix_def regexp_Compile_plain_def
  isValidCaptureName_def isWordChar_def Let_def

lemma TrimSpace_samples:
  "TrimSpace '' abc'' = ''abc''"
  "TrimSpace ([CHR 0x09, CHR 0xC2, CHR 0xA0] @ ''a b'' @ [CHR 0xE2, CHR 0x80, CHR 0xA8, CHR 0x0A]) = ''a b''"
  "TrimSpace [CHR 0xC2, CHR 0x20] = [CHR 0xC2]"
  by (simp_all add: TrimSpace_def spaceRunes_def HasPrefix_def)

lemma load_def0: "mustEndpointFromFile ParseDuration_whole regexp_Compile_plain def0 = Inr ep0"
  by (simp add: def0_def ep0_def eval_defs)


lemma load_def_files:
  "mustEndpointFromFile ParseDuration_whole regexp_Compile_plain def_files = Inr ep_files"
  by (simp add: def_files_def ep_files_def ep0_def eval_defs)



lemma pathVars_ep0: "pathVars ep0 ''/run/42'' = Some [''id'' \<mapsto> ''42'']"
  by (simp add: pathVars_def ep0_def regexp_of_def HasPrefix_def)


lemma find_run42:
  "r_Method r = ''GET'' \<Longrightarrow> r_Path r = ''/run/42''
   \<Longrightarrow> findEndpoint [ep0, ep1] r = Some (ep0, [''id'' \<mapsto> ''42''])"
  by (simp add: pathVars_ep0) (simp add: ep0_def)

lemma find_req0: "findEndpoint [ep0, ep1] req0 = Some (ep0, [''id'' \<mapsto> ''42''])"
  by (rule find_run42) (simp_all add: req0_def)

lemma auth_req0: "Header_Get (r_Header req0) (header ep0) = token ep0"
  by (simp add: Header_Get_def req0_def ep0_def CanonicalMIMEHeaderKey_def
      validHeaderFieldByte_def toUpper_def toLower_def)

lemma template_echo_id:
  "params ''id'' = Some ''7'' \<Longrightarrow>
   applyTemplate [''echo'', ''id={id}''] params = Some (Inr [''echo'', ''id=7''])"
  by (simp add: expand.simps lookup_def)

lemma template_req0:
  "applyTemplate (Script ep0) (mergeParams ep0 [''id'' \<mapsto> ''42''] req0) = Some (Inr [''echo'', ''id=7''])"
proof -
  have "mergeParams ep0 [''id'' \<mapsto> ''42''] req0 ''id'' = Some ''7''"
    by (simp add: mergeParams_lookup req0_def toString_def)
  then show ?thesis
    using template_echo_id[of "mergeParams ep0 [''id'' \<mapsto> ''42''] req0"] by (simp add: ep0_def)
qed

subsection \<open>compileURI and the wildcard\<close>

lemma HasPrefix_star: "HasPrefix s ''*'' \<Longrightarrow> s \<noteq> [] \<and> \<not> HasPrefix s '':'' \<and> s = CHR ''*'' # drop 1 s"
  by (cases s) (auto simp: HasPrefix_def)

lemma loop_wildcard_misplaced:
  assumes "i + length ss = n" and "k < length ss" and "HasPrefix (ss ! k) ''*''"
    and "i + k \<noteq> n - 1"
  shows "compileURI_loop n i ss acc = Inl WildcardMustBeLast"
  using assms
proof (induction ss arbitrary: i k acc)
  case Nil
  then show ?case by simp
next
  case (Cons s ss)
  obtain b w where acc: "acc = (b, w)" by (cases acc)
  show ?case
  proof (cases k)
    case 0
    with Cons.prems have "HasPrefix s ''*''" "i \<noteq> n - 1" by simp_all
    then show ?thesis using HasPrefix_star[of s] by (simp add: acc)
  next
    case (Suc k')
    with Cons.prems have k': "k' < length ss" "HasPrefix (ss ! k') ''*''"
      and n: "Suc i + length ss = n" "Suc i + k' \<noteq> n - 1" by simp_all
    from k' n have i: "i \<noteq> n - 1" by simp
    have IH: "compileURI_loop n (Suc i) ss acc' = Inl WildcardMustBeLast" for acc'
      using Cons.IH[OF n(1) k' n(2)] .
    show ?thesis using i IH by (simp add: acc)
  qed
qed

lemma compileURI_wildcard_misplaced:
  assumes "k < length (segments pattern) - 1" and "HasPrefix (segments pattern ! k) ''*''"
  shows "compileURI C pattern = Inl WildcardMustBeLast"
proof -
  have "compileURI_loop (length (segments pattern)) 0 (segments pattern) ([], False)
          = Inl WildcardMustBeLast"
    using assms by (intro loop_wildcard_misplaced[where k = k]) simp_all
  then show ?thesis by (simp add: compileURI_def)
qed

lemma loop_wild_last:
  assumes "compileURI_loop n i ss (b, False) = Inr (re, True)" and "i + length ss = n"
    and "\<forall>s \<in> set b. \<not> is_Wild s"
  shows "ss \<noteq> [] \<and> HasPrefix (last ss) ''*'' \<and>
     (\<exists>pre. re = pre @ [Wild (drop 1 (last ss))] \<and> (\<forall>s \<in> set pre. \<not> is_Wild s))"
  using assms
proof (induction ss arbitrary: i b)
  case Nil
  then show ?case by simp
next
  case (Cons s ss)
  have n: "Suc i + length ss = n" using Cons.prems(2) by simp
  consider (empty) "s = []" | (param) "s \<noteq> []" "HasPrefix s '':''"
    | (wild) "s \<noteq> []" "\<not> HasPrefix s '':''" "HasPrefix s ''*''"
    | (lit) "s \<noteq> []" "\<not> HasPrefix s '':''" "\<not> HasPrefix s ''*''" by blast
  then show ?case
  proof cases
    case empty
    with Cons.prems have "compileURI_loop n (Suc i) ss (b, False) = Inr (re, True)" by simp
    from Cons.IH[OF this n Cons.prems(3)] show ?thesis by auto
  next
    case param
    with Cons.prems have "compileURI_loop n (Suc i) ss (b @ [Param (drop 1 s)], False) = Inr (re, True)"
      by simp
    moreover have "\<forall>x \<in> set (b @ [Param (drop 1 s)]). \<not> is_Wild x" using Cons.prems(3) by simp
    ultimately show ?thesis using Cons.IH[OF _ n] by auto
  next
    case wild
    with Cons.prems have i: "i = n - 1"
      by (auto split: if_splits)
    from n i have "length ss = 0" by arith
    then have "ss = []" by simp
    with wild i Cons.prems show ?thesis by auto
  next
    case lit
    with Cons.prems have "compileURI_loop n (Suc i) ss (b @ [Literal s], False) = Inr (re, True)"
      by simp
    moreover have "\<forall>x \<in> set (b @ [Literal s]). \<not> is_Wild x" using Cons.prems(3) by simp
    ultimately show ?thesis using Cons.IH[OF _ n] by auto
  qed
qed

lemma seg_names_append: "seg_names (xs @ ys) = seg_names xs @ seg_names ys"
  by (induction xs rule: seg_names.induct) simp_all

lemma compileURI_wild_shape:
  assumes "compileURI C pattern = Inr (re, True)"
  shows "\<exists>pre name. C (pre @ [Wild name]) = Inr re \<and> (\<forall>s \<in> set pre. \<not> is_Wild s)
           \<and> last (segments pattern) = CHR ''*'' # name"
proof -
  from assms obtain b where
    l: "compileURI_loop (length (segments pattern)) 0 (segments pattern) ([], False) = Inr (b, True)"
    and c: "C b = Inr re"
    by (auto simp: compileURI_def Let_def split: sum.splits prod.splits)
  from loop_wild_last[OF l] obtain pre where
    s: "HasPrefix (last (segments pattern)) ''*''" and
    p: "b = pre @ [Wild (drop 1 (last (segments pattern)))]" "\<forall>s \<in> set pre. \<not> is_Wild s"
    by auto
  from c p HasPrefix_star[OF s] show ?thesis by metis
qed

lemma first_some_None: "(\<And>x. x \<in> set xs \<Longrightarrow> f x = None) \<Longrightarrow> first_some f xs = None"
  by (induction xs) simp_all

lemma first_some_SomeD: "first_some f xs = Some y \<Longrightarrow> \<exists>x \<in> set xs. f x = Some y"
  by (induction xs) (auto split: option.splits)

lemma captures_Wild_Cons:
  "captures (Wild name # ss) (CHR ''/'' # rest) =
     first_some
       (\<lambda>k. if CHR 0x0A \<in> set (take k rest) then None
            else map_option (\<lambda>cs. take k rest # cs) (captures ss (drop k rest)))
       (rev [0..<Suc (length rest)])"
  by simp

lemma captures_length: "captures re p = Some cs \<Longrightarrow> length cs = length (seg_names re)"
proof (induction re p arbitrary: cs rule: captures.induct)
  case (1 p)
  then show ?case by (simp split: if_splits)
next
  case (2 l ss p)
  then show ?case by (auto split: list.splits if_splits)
next
  case (3 name ss p)
  then show ?case by (auto split: list.splits if_splits)
next
  case (4 name ss p)
  from "4.prems" obtain rest where p: "p = CHR ''/'' # rest"
    by (cases p) (auto split: if_splits)
  from "4.prems" have "first_some
       (\<lambda>k. if CHR 0x0A \<in> set (take k rest) then None
            else map_option (\<lambda>cs. take k rest # cs) (captures ss (drop k rest)))
       (rev [0..<Suc (length rest)]) = Some cs"
    unfolding p captures_Wild_Cons .
  from first_some_SomeD[OF this] obtain k where k: "k \<in> set (rev [0..<Suc (length rest)])"
    and f: "(if CHR 0x0A \<in> set (take k rest) then None
             else map_option (\<lambda>cs. take k rest # cs) (captures ss (drop k rest))) = Some cs"
    by blast
  from f obtain cs' where cs: "cs = take k rest # cs'" and r: "captures ss (drop k rest) = Some cs'"
    and nl: "CHR 0x0A \<notin> set (take k rest)"
    by (auto split: if_splits)
  from "4.IH"[OF p refl nl r] cs show ?case by simp
qed

lemma captures_wild_only:
  "captures [Wild n] (CHR ''/'' # r) = (if CHR 0x0A \<in> set r then None else Some [r])"
proof -
  let ?F = "\<lambda>k. if CHR 0x0A \<in> set (take k r) then None
            else map_option (\<lambda>cs. take k r # cs) (captures [] (drop k r))"
  have rest: "first_some ?F (rev [0..<length r]) = None"
    by (rule first_some_None) simp
  have top: "?F (length r) = (if CHR 0x0A \<in> set r then None else Some [r])"
    by simp
  have "captures [Wild n] (CHR ''/'' # r) = first_some ?F (length r # rev [0..<length r])"
    unfolding captures_Wild_Cons by simp
  also have "\<dots> = (case ?F (length r) of Some y \<Rightarrow> Some y | None \<Rightarrow> first_some ?F (rev [0..<length r]))"
    by (rule first_some.simps(2))
  also have "\<dots> = (if CHR 0x0A \<in> set r then None else Some [r])"
    unfolding rest top by simp
  finally show ?thesis .
qed

lemma takeWhile_append_stop:
  "\<not> P y \<Longrightarrow> takeWhile P (xs @ y # ys) = takeWhile P xs"
  by (induction xs) simp_all

lemma dropWhile_append_stop:
  "\<not> P y \<Longrightarrow> dropWhile P (xs @ y # ys) = dropWhile P xs @ y # ys"
  by (induction xs) simp_all

lemma HasPrefix_iff: "HasPrefix s p \<longleftrightarrow> (\<exists>t. s = p @ t)"
proof
  assume "HasPrefix s p"
  then have "s = p @ drop (length p) s"
    unfolding HasPrefix_def by (metis append_take_drop_id)
  then show "\<exists>t. s = p @ t" ..
next
  assume "\<exists>t. s = p @ t"
  then show "HasPrefix s p" unfolding HasPrefix_def by auto
qed

lemma captures_append_wild:
  assumes "captures pre q = Some vs" and "\<forall>s \<in> set pre. \<not> is_Wild s"
  shows "captures (pre @ [Wild n]) (q @ CHR ''/'' # r)
           = (if CHR 0x0A \<in> set r then None else Some (vs @ [r]))"
  using assms
proof (induction pre q arbitrary: vs rule: captures.induct)
  case (1 p)
  then have "p = []" "vs = []" by (auto split: if_splits)
  then show ?case using captures_wild_only[of n r] by simp
next
  case (2 l ss p)
  from "2.prems"(1) obtain rest where p: "p = CHR ''/'' # rest" and h: "HasPrefix rest l"
    and c: "captures ss (drop (length l) rest) = Some vs"
    by (auto split: list.splits if_splits)
  from h obtain t where rest: "rest = l @ t" unfolding HasPrefix_iff by blast
  have h': "HasPrefix (rest @ CHR ''/'' # r) l" unfolding HasPrefix_iff rest by simp
  have "captures (ss @ [Wild n]) (t @ CHR ''/'' # r)
          = (if CHR 0x0A \<in> set r then None else Some (vs @ [r]))"
    using "2.IH"[OF p _ c] h "2.prems"(2) unfolding rest by simp
  moreover have "captures ((Literal l # ss) @ [Wild n]) (p @ CHR ''/'' # r)
          = captures (ss @ [Wild n]) (t @ CHR ''/'' # r)"
    using h' unfolding p by (simp add: rest)
  ultimately show ?case by simp
next
  case (3 name ss p)
  let ?P = "\<lambda>x. x \<noteq> CHR ''/''"
  from "3.prems"(1) obtain rest vs' where p: "p = CHR ''/'' # rest"
    and t: "takeWhile ?P rest \<noteq> []"
    and c: "captures ss (dropWhile ?P rest) = Some vs'" and vs: "vs = takeWhile ?P rest # vs'"
    by (auto split: list.splits if_splits)
  have tw: "takeWhile ?P (rest @ CHR ''/'' # r) = takeWhile ?P rest"
    by (rule takeWhile_append_stop) simp
  have dw: "dropWhile ?P (rest @ CHR ''/'' # r) = dropWhile ?P rest @ CHR ''/'' # r"
    by (rule dropWhile_append_stop) simp
  from "3.IH"[OF p _ c] t "3.prems"(2)
  have "captures (ss @ [Wild n]) (dropWhile ?P rest @ CHR ''/'' # r)
          = (if CHR 0x0A \<in> set r then None else Some (vs' @ [r]))" by simp
  with p t tw dw vs show ?case by simp
next
  case (4 name ss p)
  from "4.prems"(2) show ?case by simp
qed

lemma pathVars_loop_last:
  assumes "name \<noteq> []" and "0 < i + length names"
  shows "pathVars_loop i (names @ [name]) m acc name = Some (m ! (i + length names))"
  using assms
proof (induction names arbitrary: i acc)
  case Nil
  then show ?case by simp
next
  case (Cons x xs)
  have "pathVars_loop (Suc i) (xs @ [name]) m acc' name = Some (m ! (Suc i + length xs))" for acc'
    using Cons.IH[of "Suc i" acc'] Cons.prems(1) by simp
  then show ?case by simp
qed

lemma pathVars_wild:
  assumes "pathRe ep = regexp_of (pre @ [Wild name])" and "\<forall>s \<in> set pre. \<not> is_Wild s"
    and "name \<noteq> []"
    and "captures pre q = Some vs"
  shows "CHR 0x0A \<notin> set r \<Longrightarrow>
           \<exists>vars. pathVars ep (q @ CHR ''/'' # r) = Some vars \<and> vars name = Some r"
    and "CHR 0x0A \<in> set r \<Longrightarrow> pathVars ep (q @ CHR ''/'' # r) = None"
proof -
  note c = captures_append_wild[OF assms(4,2), of name r]
  show "CHR 0x0A \<in> set r \<Longrightarrow> pathVars ep (q @ CHR ''/'' # r) = None"
    using c by (simp add: pathVars_def regexp_of_def assms(1))
  assume nl: "CHR 0x0A \<notin> set r"
  let ?p = "q @ CHR ''/'' # r"
  from c nl have f: "FindStringSubmatch (pathRe ep) ?p = Some (?p # vs @ [r])"
    by (simp add: regexp_of_def assms(1))
  have len: "length vs = length (seg_names pre)" using captures_length[OF assms(4)] .
  have names: "SubexpNames (pathRe ep) = ([] # seg_names pre) @ [name]"
    by (simp add: regexp_of_def assms(1) seg_names_append)
  have "pathVars_loop 0 (([] # seg_names pre) @ [name]) (?p # vs @ [r]) Map.empty name
          = Some ((?p # vs @ [r]) ! (0 + length ([] # seg_names pre)))"
    by (rule pathVars_loop_last) (simp_all add: assms(3))
  also have "(?p # vs @ [r]) ! (0 + length ([] # seg_names pre)) = r"
    using len by (simp add: nth_append)
  finally show "\<exists>vars. pathVars ep ?p = Some vars \<and> vars name = Some r"
    using f names by (simp add: pathVars_def)
qed

lemma mustEndpointFromFile_bad_uri:
  "compileURI C (URI d) = Inl e \<Longrightarrow> \<exists>e'. mustEndpointFromFile P C d = Inl e'"
  by (auto simp: mustEndpointFromFile_def Let_def split: if_splits sum.splits prod.splits)

lemma compile_files:
  "compileURI regexp_Compile_plain ''/files/*rest''
     = Inr (regexp_of [Literal ''files'', Wild ''rest''], True)"
  by (simp add: eval_defs)

lemma compile_misplaced_segments:
  "segments ''/a/*x/b'' = [''a'', ''*x'', ''b'']"
  by (simp add: segments_def TrimPrefix_def HasPrefix_def)

lemma compile_misplaced: "compileURI C ''/a/*x/b'' = Inl WildcardMustBeLast"
  by (rule compileURI_wildcard_misplaced[where k = 1])
    (simp_all add: compile_misplaced_segments HasPrefix_def)

lemma wildcard_matches_remainder:
  assumes "compileURI regexp_Compile_plain pattern = Inr (re, True)" and "pathRe ep = re"
  shows "\<exists>pre name. last (segments pattern) = CHR ''*'' # name \<and>
           (\<forall>q r. captures pre q \<noteq> None \<longrightarrow>
              (if CHR 0x0A \<in> set r then pathVars ep (q @ CHR ''/'' # r) = None
               else (\<exists>vars. pathVars ep (q @ CHR ''/'' # r) = Some vars \<and> vars name = Some r)))"
proof -
  from compileURI_wild_shape[OF assms(1)] obtain pre name where
    c: "regexp_Compile_plain (pre @ [Wild name]) = Inr re" and nw: "\<forall>s \<in> set pre. \<not> is_Wild s"
    and l: "last (segments pattern) = CHR ''*'' # name"
    by blast
  from c have re: "re = regexp_of (pre @ [Wild name])"
    and v: "list_all isValidCaptureName (seg_names (pre @ [Wild name]))"
    by (auto simp: regexp_Compile_plain_def split: if_splits)
  from v have ne: "name \<noteq> []" by (simp add: seg_names_append isValidCaptureName_def)
  have p: "pathRe ep = regexp_of (pre @ [Wild name])" using assms(2) re by simp
  have "if CHR 0x0A \<in> set r then pathVars ep (q @ CHR ''/'' # r) = None
        else (\<exists>vars. pathVars ep (q @ CHR ''/'' # r) = Some vars \<and> vars name = Some r)"
    if "captures pre q \<noteq> None" for q r
  proof -
    from that obtain vs where "captures pre q = Some vs" by auto
    from pathVars_wild[OF p nw ne this, of r] show ?thesis by auto
  qed
  with l show ?thesis by blast
qed

subsection \<open>Header names\<close>

lemma char_as_nat: "\<exists>n<256. c = char_of (n::nat)"
  by (rule exI[of _ "of_char c"]) simp

lemma toLower_toLower: "toLower (toLower c) = toLower c"
proof -
  obtain n :: nat where n: "n < 256" and c: "c = char_of n" using char_as_nat by blast
  show ?thesis unfolding c using n
    by (auto simp: toLower_def less_eq_char_def char_of_eq_iff take_bit_eq_mod)
qed

lemma toUpper_toLower: "toUpper (toLower c) = toUpper c"
proof -
  obtain n :: nat where n: "n < 256" and c: "c = char_of n" using char_as_nat by blast
  show ?thesis unfolding c using n
    by (auto simp: toLower_def toUpper_def less_eq_char_def char_of_eq_iff take_bit_eq_mod)
qed

lemma valid_toLower: "validHeaderFieldByte (toLower c) = validHeaderFieldByte c"
proof -
  obtain n :: nat where n: "n < 256" and c: "c = char_of n" using char_as_nat by blast
  show ?thesis unfolding c using n
    by (auto simp: toLower_def validHeaderFieldByte_def less_eq_char_def char_of_eq_iff take_bit_eq_mod)
qed

lemma canonical_loop_lower: "canonical_loop u (map toLower s) = canonical_loop u s"
  by (induction s arbitrary: u) (simp_all add: toUpper_toLower toLower_toLower)

lemma valid_lower: "list_all validHeaderFieldByte (map toLower s) = list_all validHeaderFieldByte s"
  by (induction s) (simp_all add: valid_toLower)

lemma Header_Get_case_insensitive:
  assumes "\<forall>k \<in> dom h. list_all validHeaderFieldByte k" and "map toLower n = map toLower n'"
  shows "Header_Get h n = Header_Get h n'"
proof (cases "list_all validHeaderFieldByte n")
  case True
  then have "list_all validHeaderFieldByte n'"
    using valid_lower[of n] valid_lower[of n'] assms(2) by simp
  moreover have "canonical_loop True n = canonical_loop True n'"
    using canonical_loop_lower[of True n] canonical_loop_lower[of True n'] assms(2) by simp
  ultimately show ?thesis using True by (simp add: Header_Get_def CanonicalMIMEHeaderKey_def)
next
  case False
  then have f': "\<not> list_all validHeaderFieldByte n'"
    using valid_lower[of n] valid_lower[of n'] assms(2) by simp
  from False assms(1) have "h n = None" by (cases "h n") auto
  moreover from f' assms(1) have "h n' = None" by (cases "h n'") auto
  ultimately show ?thesis using False f' by (simp add: Header_Get_def CanonicalMIMEHeaderKey_def)
qed

lemma Header_Get_eq_token:
  "t \<noteq> [] \<Longrightarrow> Header_Get h key = t \<longleftrightarrow> (\<exists>vs. h (CanonicalMIMEHeaderKey key) = Some (t # vs))"
  by (auto simp: Header_Get_def split: option.splits list.splits)

lemma handler_authorized_not_401:
  assumes "findEndpoint eps r = Some (ep, pv)" and "Header_Get (r_Header r) (header ep) = token ep"
  shows "handler run eps r \<noteq> Some (Reply (http_Error ''unauthorized'' 401), [])"
  using assms by (auto simp: handler_def Let_def split: option.splits sum.splits)

subsection \<open>The expansion loop\<close>

lemma Index_None_iff: "Index xs c = None \<longleftrightarrow> c \<notin> set xs"
  by (induction xs) auto

lemma Index_Some:
  "Index xs c = Some i \<Longrightarrow> i < length xs \<and> xs ! i = c \<and> c \<notin> set (take i xs)"
  by (induction xs arbitrary: i) (auto split: if_splits)

lemma Index_append: "c \<notin> set pre \<Longrightarrow> Index (pre @ c # post) c = Some (length pre)"
  by (induction pre) auto

lemma expand_done: "CHR ''{'' \<notin> set res \<Longrightarrow> expand params tok res = Some (Inr res)"
  by (subst expand.simps) (simp add: Index_None_iff[THEN iffD2])

lemma expand_step:
  assumes "CHR ''{'' \<notin> set pre" and "CHR ''}'' \<notin> set name"
  shows "expand params tok (pre @ CHR ''{'' # name @ CHR ''}'' # post)
           = expand params tok (pre @ lookup params name @ post)"
proof -
  have s: "Index (pre @ CHR ''{'' # name @ CHR ''}'' # post) CHR ''{'' = Some (length pre)"
    using assms(1) by (rule Index_append)
  have e: "Index (name @ CHR ''}'' # post) CHR ''}'' = Some (length name)"
    using assms(2) by (rule Index_append)
  show ?thesis
    by (subst expand.simps) (simp add: s e)
qed

lemma expand_missing_name:
  assumes "CHR ''{'' \<notin> set pre" and "CHR ''}'' \<notin> set name" and "params name = None"
  shows "expand params tok (pre @ CHR ''{'' # name @ CHR ''}'' # post)
           = expand params tok (pre @ post)"
  using expand_step[OF assms(1,2), of params tok post] assms(3) by (simp add: lookup_def)

lemma unclosed_after_step:
  assumes res: "res = pre @ CHR ''{'' # post" and post: "CHR ''}'' \<notin> set post"
    and s: "Index res CHR ''{'' = Some s" and e: "Index (drop (s + 1) res) CHR ''}'' = Some e0"
  shows "\<exists>pre'. take s res @ v @ drop (e0 + (s + 1) + 1) res = pre' @ CHR ''{'' # post"
proof -
  from Index_Some[OF e] have e0: "e0 < length (drop (s + 1) res)"
    and d: "drop (s + 1) res ! e0 = CHR ''}''" by blast+
  from e0 have lt: "e0 + (s + 1) < length res" by simp
  then have "drop (s + 1) res ! e0 = res ! (s + 1 + e0)" by (intro nth_drop) simp
  with d have at: "res ! (e0 + (s + 1)) = CHR ''}''" by (simp add: add.commute)
  have "e0 + (s + 1) < length pre"
  proof (rule ccontr)
    assume "\<not> e0 + (s + 1) < length pre"
    then have ge: "length pre \<le> e0 + (s + 1)" by simp
    with lt res have "res ! (e0 + (s + 1)) = (CHR ''{'' # post) ! (e0 + (s + 1) - length pre)"
      and "e0 + (s + 1) - length pre < length (CHR ''{'' # post)"
      by (simp_all add: nth_append)
    with at have "CHR ''}'' \<in> set (CHR ''{'' # post)" by (metis nth_mem)
    with post show False by simp
  qed
  then have "drop (e0 + (s + 1) + 1) res = drop (e0 + (s + 1) + 1) pre @ CHR ''{'' # post"
    unfolding res by simp
  then show ?thesis by (metis append.assoc)
qed

lemma expand_unclosed_not_ok:
  assumes "expand params tok res = Some y"
  shows "(\<exists>pre post. res = pre @ CHR ''{'' # post \<and> CHR ''}'' \<notin> set post) \<longrightarrow> (\<exists>e. y = Inl e)"
proof (rule expand.raw_induct
    [where P = "\<lambda>params tok res y.
        (\<exists>pre post. res = pre @ CHR ''{'' # post \<and> CHR ''}'' \<notin> set post) \<longrightarrow> (\<exists>e. y = Inl e)",
     OF _ assms])
  fix ex :: "(string \<rightharpoonup> string) \<Rightarrow> string \<Rightarrow> string \<Rightarrow> (error + string) option"
    and params tok res y
  assume IH: "\<And>params tok res y. ex params tok res = Some y \<Longrightarrow>
      (\<exists>pre post. res = pre @ CHR ''{'' # post \<and> CHR ''}'' \<notin> set post) \<longrightarrow> (\<exists>e. y = Inl e)"
  assume step: "(case Index res CHR ''{'' of
         None \<Rightarrow> Some (Inr res)
       | Some s \<Rightarrow>
           (case Index (drop (s + 1) res) CHR ''}'' of
              None \<Rightarrow> Some (Inl (UnclosedPlaceholder tok))
            | Some e0 \<Rightarrow>
                (let e = e0 + (s + 1);
                     name = take (e - (s + 1)) (drop (s + 1) res);
                     val = lookup params name
                 in ex params tok (take s res @ val @ drop (e + 1) res)))) = Some y"
  show "(\<exists>pre post. res = pre @ CHR ''{'' # post \<and> CHR ''}'' \<notin> set post) \<longrightarrow> (\<exists>e. y = Inl e)"
  proof
    assume "\<exists>pre post. res = pre @ CHR ''{'' # post \<and> CHR ''}'' \<notin> set post"
    then obtain pre post where res: "res = pre @ CHR ''{'' # post" and post: "CHR ''}'' \<notin> set post"
      by blast
    from res have "CHR ''{'' \<in> set res" by simp
    then obtain s where s: "Index res CHR ''{'' = Some s"
      using Index_None_iff[of res "CHR ''{''"] by (cases "Index res CHR ''{''") auto
    show "\<exists>e. y = Inl e"
    proof (cases "Index (drop (s + 1) res) CHR ''}''")
      case None
      with step s show ?thesis by auto
    next
      case (Some e0)
      let ?v = "lookup params (take (e0 + (s + 1) - (s + 1)) (drop (s + 1) res))"
      from step s Some have "ex params tok (take s res @ ?v @ drop (e0 + (s + 1) + 1) res) = Some y"
        by (simp add: Let_def)
      moreover from unclosed_after_step[OF res post s Some, of ?v]
      have "\<exists>pre' post'. take s res @ ?v @ drop (e0 + (s + 1) + 1) res = pre' @ CHR ''{'' # post'
              \<and> CHR ''}'' \<notin> set post'"
        using post by blast
      ultimately show ?thesis using IH by blast
    qed
  qed
qed

lemma applyTemplate_unclosed_not_ok:
  assumes "tok \<in> set tokens" and "tok = pre @ CHR ''{'' # post" and "CHR ''}'' \<notin> set post"
  shows "applyTemplate tokens params \<noteq> Some (Inr argv)"
  using assms(1)
proof (induction tokens arbitrary: argv)
  case Nil
  then show ?case by simp
next
  case (Cons t ts)
  show ?case
  proof (cases "t = tok")
    case True
    have "expand params tok tok \<noteq> Some (Inr z)" for z
      using expand_unclosed_not_ok[of params tok tok "Inr z"] assms(2,3) by auto
    then show ?thesis unfolding True
      by (auto split: option.splits sum.splits)
  next
    case False
    with Cons.prems have "tok \<in> set ts" by simp
    from Cons.IH[OF this] show ?thesis
      by (auto split: option.splits sum.splits)
  qed
qed

lemma braces_append: "braces (xs @ ys) = braces xs + braces ys"
  by (simp add: braces_def)

lemma braces_zero: "CHR ''{'' \<notin> set s \<Longrightarrow> braces s = 0"
  by (induction s) (auto simp: braces_def)

lemma braces_drop_le: "braces (drop n s) \<le> braces s"
proof -
  have "braces s = braces (take n s) + braces (drop n s)"
    by (metis append_take_drop_id braces_append)
  then show ?thesis by simp
qed

lemma expand_terminates:
  assumes "\<forall>v \<in> ran params. CHR ''{'' \<notin> set v"
  shows "\<exists>y. expand params tok res = Some y"
proof (induction "braces res" arbitrary: res rule: less_induct)
  case less
  show ?case
  proof (cases "Index res CHR ''{''")
    case None
    then show ?thesis by (subst expand.simps) simp
  next
    case (Some s)
    show ?thesis
    proof (cases "Index (drop (s + 1) res) CHR ''}''")
      case None
      with Some show ?thesis by (subst expand.simps) simp
    next
      case e: (Some e0)
      let ?v = "lookup params (take e0 (drop (s + 1) res))"
      let ?res' = "take s res @ ?v @ drop (e0 + (s + 1) + 1) res"
      have v: "braces ?v = 0"
      proof (cases "params (take e0 (drop (s + 1) res))")
        case None
        then show ?thesis by (simp add: lookup_def braces_def)
      next
        case (Some x)
        then have "x \<in> ran params" by (auto simp: ran_def)
        with assms have "CHR ''{'' \<notin> set x" by blast
        then show ?thesis using Some by (simp add: lookup_def braces_zero)
      qed
      from Index_Some[OF Some] have s: "s < length res" "res ! s = CHR ''{''"
        "CHR ''{'' \<notin> set (take s res)" by auto
      from id_take_nth_drop[OF s(1)] s(2)
      have res: "res = take s res @ CHR ''{'' # drop (s + 1) res" by simp
      have "braces res = braces (take s res) + 1 + braces (drop (s + 1) res)"
        by (subst res) (simp add: braces_append braces_def)
      moreover have "braces (drop (e0 + (s + 1) + 1) res) \<le> braces (drop (s + 1) res)"
        using braces_drop_le[of "e0 + 1" "drop (s + 1) res"] by (simp add: add.commute add.left_commute)
      moreover have "braces (take s res) = 0" using s(3) by (rule braces_zero)
      ultimately have "braces ?res' < braces res"
        using v by (simp add: braces_append)
      from less[OF this] obtain y where "expand params tok ?res' = Some y" by blast
      with Some e show ?thesis by (subst expand.simps) (simp add: Let_def)
    qed
  qed
qed

lemma applyTemplate_terminates:
  assumes "\<forall>v \<in> ran params. CHR ''{'' \<notin> set v"
  shows "\<exists>y. applyTemplate tokens params = Some y"
proof (induction tokens)
  case Nil
  then show ?case by simp
next
  case (Cons t ts)
  from expand_terminates[OF assms, of t t] obtain y where "expand params t t = Some y" by blast
  with Cons show ?case by (auto split: sum.splits)
qed

lemma applyTemplate_unclosed_error:
  assumes "\<forall>v \<in> ran params. CHR ''{'' \<notin> set v"
    and "tok \<in> set tokens" and "tok = pre @ CHR ''{'' # post" and "CHR ''}'' \<notin> set post"
  shows "\<exists>e. applyTemplate tokens params = Some (Inl e)"
proof -
  from applyTemplate_terminates[OF assms(1)] obtain y where y: "applyTemplate tokens params = Some y"
    by blast
  with applyTemplate_unclosed_not_ok[OF assms(2,3,4), of params] show ?thesis
    by (cases y) auto
qed

lemma handler_unclosed_template:
  assumes "findEndpoint eps r = Some (ep, pv)"
    and "Header_Get (r_Header r) (header ep) = token ep"
    and "tok \<in> set (Script ep)" and "tok = pre @ CHR ''{'' # post" and "CHR ''}'' \<notin> set post"
  shows "handler run eps r = None
       \<or> (\<exists>e. handler run eps r =
             Some (Reply \<lparr>status = 400, content_type = Some ''text/plain; charset=utf-8'',
                    body = TemplateError e, informational = []\<rparr>, [Resolve, Expand]))"
proof (cases "applyTemplate (Script ep) (mergeParams ep pv r)")
  case None
  with assms(1,2) show ?thesis by (simp add: handler_def)
next
  case (Some y)
  with applyTemplate_unclosed_not_ok[OF assms(3,4,5), of "mergeParams ep pv r"]
  obtain e where "y = Inl e" by (cases y) auto
  with Some handler_bad_template[OF assms(1,2)] show ?thesis by blast
qed

lemma handler_unclosed_template_400:
  assumes "findEndpoint eps r = Some (ep, pv)"
    and "Header_Get (r_Header r) (header ep) = token ep"
    and "tok \<in> set (Script ep)" and "tok = pre @ CHR ''{'' # post" and "CHR ''}'' \<notin> set post"
    and "\<forall>v \<in> ran (mergeParams ep pv r). CHR ''{'' \<notin> set v"
  shows "\<exists>e. handler run eps r =
             Some (Reply \<lparr>status = 400, content_type = Some ''text/plain; charset=utf-8'',
                    body = TemplateError e, informational = []\<rparr>, [Resolve, Expand])"
proof -
  from applyTemplate_unclosed_error[OF assms(6,3,4,5)] obtain e where
    "applyTemplate (Script ep) (mergeParams ep pv r) = Some (Inl e)" by blast
  from handler_bad_template[OF assms(1,2) this] show ?thesis by blast
qed

subsection \<open>A parameter that names itself\<close>

lemma expand_self_reference:
  assumes "expand params tok res = Some y"
  shows "params ''a'' = Some ''{a}'' \<longrightarrow> res \<noteq> ''{a}{''"
proof (rule expand.raw_induct
    [where P = "\<lambda>params tok res y. params ''a'' = Some ''{a}'' \<longrightarrow> res \<noteq> ''{a}{''", OF _ assms])
  fix ex :: "(string \<rightharpoonup> string) \<Rightarrow> string \<Rightarrow> string \<Rightarrow> (error + string) option"
    and params tok res y
  assume IH: "\<And>params tok res y. ex params tok res = Some y \<Longrightarrow>
                 params ''a'' = Some ''{a}'' \<longrightarrow> res \<noteq> ''{a}{''"
  assume step: "(case Index res CHR ''{'' of
         None \<Rightarrow> Some (Inr res)
       | Some s \<Rightarrow>
           (case Index (drop (s + 1) res) CHR ''}'' of
              None \<Rightarrow> Some (Inl (UnclosedPlaceholder tok))
            | Some e0 \<Rightarrow>
                (let e = e0 + (s + 1);
                     name = take (e - (s + 1)) (drop (s + 1) res);
                     val = lookup params name
                 in ex params tok (take s res @ val @ drop (e + 1) res)))) = Some y"
  show "params ''a'' = Some ''{a}'' \<longrightarrow> res \<noteq> ''{a}{''"
  proof (intro impI notI)
    assume p: "params ''a'' = Some ''{a}''" and r: "res = ''{a}{''"
    from step r p have "ex params tok ''{a}{'' = Some y"
      by (simp add: lookup_def)
    with IH p show False by blast
  qed
qed

section \<open>Parameter resolution\<close>

text \<open>
  Claim C1. For every endpoint, path variables and request, the value \<^verbatim>\<open>mergeParams\<close>
  resolves for a name is taken from the source of highest precedence that holds the name:
  the field of the JSON object decoded from the body (through \<^verbatim>\<open>toString\<close>), else the
  query string of the request, else the path variables, else the endpoint's body defaults,
  else its query defaults; a name in none of them is not in the mapping. So a name present
  in all five sources resolves to the value of the JSON body, and taking a source away
  makes the name fall back to the next one down.
\<close>

theorem mergeParams_precedence:
  "mergeParams ep pv r k =
     (case (case r_Body r of Some (Decoded b) \<Rightarrow> b k | _ \<Rightarrow> None) of
        Some v \<Rightarrow> Some (toString v)
      | None \<Rightarrow>
          if k \<in> dom (r_Query r) then Some (Values_Get (r_Query r) k)
          else (case pv k of
                  Some v \<Rightarrow> Some v
                | None \<Rightarrow> (case Body ep k of Some v \<Rightarrow> Some v | None \<Rightarrow> Query ep k)))"
  by (rule mergeParams_lookup)

text \<open>The name \<open>id\<close> in all five sources, then with the sources taken away one by one
  from the top.\<close>

theorem mergeParams_precedence_witness:
  "mergeParams ep0 [''id'' \<mapsto> ''p''] req0 ''id'' = Some ''7''
   \<and> mergeParams ep0 [''id'' \<mapsto> ''p''] (req0\<lparr>r_Body := Some (Decoded Map.empty)\<rparr>) ''id'' = Some ''u''
   \<and> mergeParams ep0 [''id'' \<mapsto> ''p''] (req0\<lparr>r_Body := None, r_Query := Map.empty\<rparr>) ''id'' = Some ''p''
   \<and> mergeParams ep0 Map.empty (req0\<lparr>r_Body := None, r_Query := Map.empty\<rparr>) ''id'' = Some ''b''
   \<and> mergeParams (ep0\<lparr>Body := Map.empty\<rparr>) Map.empty
        (req0\<lparr>r_Body := None, r_Query := Map.empty\<rparr>) ''id'' = Some ''q''
   \<and> mergeParams (ep0\<lparr>Body := Map.empty, Query := Map.empty\<rparr>) Map.empty
        (req0\<lparr>r_Body := None, r_Query := Map.empty\<rparr>) ''id'' = None"
  by (simp add: mergeParams_precedence ep0_def req0_def toString_def Values_Get_def)

text \<open>
  Claim C3, as amended. For every request whose body decodes to a JSON object, each field
  resolves to \<^verbatim>\<open>toString\<close> of its value: a string passes through unchanged; a number
  renders as the text the body spells it with, unchanged (the decoder runs with
  \<^verbatim>\<open>UseNumber\<close>, so a number arrives as a \<^verbatim>\<open>json.Number\<close> and never reaches the
  \<^verbatim>\<open>float64\<close> branch that trims zeros); a boolean renders as \<^verbatim>\<open>true\<close> or \<^verbatim>\<open>false\<close>;
  any other value renders as its compact JSON text.
\<close>

theorem body_field_coercion:
  assumes "r_Body r = Some (Decoded b)" and "b k = Some v"
  shows "mergeParams ep pv r k = Some (toString v)
    \<and> toString (AString s) = s
    \<and> toString (ANumber lit) = lit
    \<and> toString (ABool True) = ''true'' \<and> toString (ABool False) = ''false''
    \<and> toString (AOther js) = js"
  using assms by (simp add: mergeParams_lookup toString_def)

theorem body_field_coercion_witness:
  "r_Body req0 = Some (Decoded [''id'' \<mapsto> ANumber ''7''])
   \<and> mergeParams ep0 Map.empty req0 ''id'' = Some ''7''
   \<and> toString (AString ''a b'') = ''a b''
   \<and> toString (ANumber ''1.50'') = ''1.50''
   \<and> toString (AOther ''[1,2]'') = ''[1,2]''"
  using body_field_coercion[of req0 "[''id'' \<mapsto> ANumber ''7'']" "''id''" "ANumber ''7''"
      ep0 Map.empty "''a b''" "''1.50''" "''[1,2]''"]
  by (simp add: req0_def toString_def)

text \<open>The claim as stated fails: the literals \<^verbatim>\<open>1.50\<close> and \<^verbatim>\<open>1e3\<close> resolve to
  themselves, not to \<^verbatim>\<open>1.5\<close> and \<^verbatim>\<open>1000\<close>.\<close>

theorem number_rendering_counterexample:
  "mergeParams ep0 Map.empty
      (req0\<lparr>r_Body := Some (Decoded [''n'' \<mapsto> ANumber ''1.50'', ''m'' \<mapsto> ANumber ''1e3''])\<rparr>) ''n''
     = Some ''1.50''
   \<and> mergeParams ep0 Map.empty
      (req0\<lparr>r_Body := Some (Decoded [''n'' \<mapsto> ANumber ''1.50'', ''m'' \<mapsto> ANumber ''1e3''])\<rparr>) ''m''
     = Some ''1e3''
   \<and> ''1.50'' \<noteq> ''1.5'' \<and> ''1e3'' \<noteq> ''1000''"
  by (simp add: mergeParams_lookup req0_def toString_def)

section \<open>Loading\<close>

text \<open>
  Claim C4, as amended. For every parser of durations, every compiler of expressions and
  every definition, an endpoint that \<^verbatim>\<open>mustEndpointFromFile\<close> accepts has as its timeout
  the duration its \<^verbatim>\<open>ttl\<close> text parses to, the text \<^verbatim>\<open>8s\<close> standing in for an empty
  one; and a definition whose \<^verbatim>\<open>ttl\<close> text does not parse is rejected. Nothing checks
  the sign of the duration.
\<close>

theorem timeout_is_parsed_ttl:
  "(mustEndpointFromFile P C d = Inr ep \<longrightarrow>
      P (if TTL d = [] then ''8s'' else TTL d) = Inr (timeout ep))
   \<and> (P (if TTL d = [] then ''8s'' else TTL d) = Inl e \<longrightarrow>
      (\<exists>e'. mustEndpointFromFile P C d = Inl e'))"
  using mustEndpointFromFile_fields(2)[of P C d ep] mustEndpointFromFile_bad_ttl[of P d e C]
  by blast

theorem timeout_is_parsed_ttl_witness:
  "mustEndpointFromFile ParseDuration_whole regexp_Compile_plain (def0\<lparr>TTL := ''''\<rparr>) = Inr ep0
   \<and> ParseDuration_whole ''8s'' = Inr (timeout ep0)
   \<and> timeout ep0 = 8000000000
   \<and> ParseDuration_whole ''soon'' = Inl InvalidDuration
   \<and> mustEndpointFromFile ParseDuration_whole regexp_Compile_plain (def0\<lparr>TTL := ''soon''\<rparr>)
       = Inl (BadTTL InvalidDuration)"
proof -
  have a: "mustEndpointFromFile ParseDuration_whole regexp_Compile_plain (def0\<lparr>TTL := ''''\<rparr>) = Inr ep0"
    by (simp add: def0_def ep0_def eval_defs)
  have b: "ParseDuration_whole ''soon'' = Inl InvalidDuration"
    by (simp add: eval_defs)
  have c: "mustEndpointFromFile ParseDuration_whole regexp_Compile_plain (def0\<lparr>TTL := ''soon''\<rparr>)
             = Inl (BadTTL InvalidDuration)"
    by (simp add: def0_def ep0_def eval_defs)
  from a timeout_is_parsed_ttl[of ParseDuration_whole regexp_Compile_plain "def0\<lparr>TTL := ''''\<rparr>" ep0]
  have "ParseDuration_whole ''8s'' = Inr (timeout ep0)" by simp
  with a b c show ?thesis by (simp add: ep0_def)
qed

text \<open>The claim as stated fails: the texts \<^verbatim>\<open>-1s\<close> and \<^verbatim>\<open>0\<close> parse, and the endpoint
  is accepted with a negative and with a zero timeout.\<close>

theorem nonpositive_timeout_counterexample:
  "mustEndpointFromFile ParseDuration_whole regexp_Compile_plain (def0\<lparr>TTL := ''-1s''\<rparr>)
     = Inr (ep0\<lparr>TTL := ''-1s'', timeout := - 1000000000\<rparr>)
   \<and> mustEndpointFromFile ParseDuration_whole regexp_Compile_plain (def0\<lparr>TTL := ''0''\<rparr>)
     = Inr (ep0\<lparr>TTL := ''0'', timeout := 0\<rparr>)"
  by (simp add: def0_def ep0_def eval_defs)

section \<open>Dispatch\<close>

text \<open>
  Claim C5. For every endpoint compiled by \<^verbatim>\<open>mustEndpointFromFile\<close> that a request
  matches: when the request has no header of the endpoint's header name, or the value
  \<^verbatim>\<open>Header.Get\<close> reads for it differs from the endpoint's token, the response has status
  401, whatever the child process would do, and the request enters no further stage: no
  parameter resolution, no template expansion, no execution.
\<close>

theorem unauthorized_no_work:
  assumes "mustEndpointFromFile P C d = Inr ep"
      and "findEndpoint eps r = Some (ep, pv)"
      and "r_Header r (CanonicalMIMEHeaderKey (header ep)) = None
           \<or> Header_Get (r_Header r) (header ep) \<noteq> token ep"
  shows "handler run eps r = Some (Reply (http_Error ''unauthorized'' 401), [])
         \<and> status (http_Error ''unauthorized'' 401) = 401"
proof -
  from mustEndpointFromFile_fields(1)[OF assms(1)] have "token ep \<noteq> []"
    using parseAuth_nonempty by blast
  with assms(3) have "Header_Get (r_Header r) (header ep) \<noteq> token ep"
    using Header_Get_absent by fastforce
  from handler_unauthorized[OF assms(2) this] show ?thesis
    by (simp add: http_Error_def)
qed

text \<open>A token that differs from the endpoint's in case only, and a request without the
  header.\<close>

theorem unauthorized_no_work_witness:
  "mustEndpointFromFile ParseDuration_whole regexp_Compile_plain def0 = Inr ep0
   \<and> handler run_ok [ep0, ep1] (req0\<lparr>r_Header := [''X-Token'' \<mapsto> [''ABC'']]\<rparr>)
       = Some (Reply (http_Error ''unauthorized'' 401), [])
   \<and> handler run_ok [ep0, ep1] (req0\<lparr>r_Header := Map.empty\<rparr>)
       = Some (Reply (http_Error ''unauthorized'' 401), [])"
proof -
  have f: "findEndpoint [ep0, ep1] (req0\<lparr>r_Header := h\<rparr>) = Some (ep0, [''id'' \<mapsto> ''42''])" for h
    by (rule find_run42) (simp_all add: req0_def)
  have k: "CanonicalMIMEHeaderKey (header ep0) = ''X-Token''"
    by (simp add: ep0_def CanonicalMIMEHeaderKey_def validHeaderFieldByte_def toUpper_def toLower_def)
  have 1: "handler run_ok [ep0, ep1] (req0\<lparr>r_Header := [''X-Token'' \<mapsto> [''ABC'']]\<rparr>)
       = Some (Reply (http_Error ''unauthorized'' 401), [])"
    using unauthorized_no_work[OF load_def0 f, of "[''X-Token'' \<mapsto> [''ABC'']]" run_ok] k
    by (simp add: Header_Get_def ep0_def)
  have 2: "handler run_ok [ep0, ep1] (req0\<lparr>r_Header := Map.empty\<rparr>)
       = Some (Reply (http_Error ''unauthorized'' 401), [])"
    using unauthorized_no_work[OF load_def0 f, of Map.empty run_ok] k
    by simp
  from 1 2 load_def0 show ?thesis by simp
qed



section \<open>Execution\<close>

text \<open>
  Claim C7, as amended. For every endpoint compiled by \<^verbatim>\<open>mustEndpointFromFile\<close> and every
  request other than a \<^verbatim>\<open>HEAD\<close> request that matches it, passes its check of the header
  and whose template expands, the command is run, and:
  \<^item> when the command ends without error, the response is 200 with the combined output;
  \<^item> when it ends with an error (an exit status other than zero, a timeout) and the
    endpoint's \<^verbatim>\<open>Error\<close> status is one from 200 to 999 other than 204 and 304, the
    response has this status and the combined output, followed by a line feed, the text
    \<^verbatim>\<open>(timeout)\<close> and a line feed exactly when the error is, or the context reports, an
    exceeded deadline;
  \<^item> with the status 101, 204 or 304 the response has this status and no body;
  \<^item> with another status from 100 to 199 an interim response of this status is sent, and
    then the response 200 with the combined output and the marker;
  \<^item> with a status below 100 or above 999 the handler panics and there is no response.

  The \<^verbatim>\<open>Error\<close> status of a compiled endpoint is 500 when its definition gives none, and
  the one its definition gives otherwise, whatever number that is.
\<close>

theorem command_result_response:
  assumes "mustEndpointFromFile P C d = Inr ep"
      and "findEndpoint eps r = Some (ep, pv)"
      and "r_Method r \<noteq> ''HEAD''"
      and "Header_Get (r_Header r) (header ep) = token ep"
      and "applyTemplate (Script ep) (mergeParams ep pv r) = Some (Inr argv)"
      and "run argv (timeout ep) = res"
  shows "(err res = None \<longrightarrow>
            handler run eps r =
              Some (Reply \<lparr>status = 200, content_type = Some ''text/plain; charset=utf-8'',
                     body = Bytes (out res), informational = []\<rparr>,
                    [Resolve, Expand, Execute argv (timeout ep)]))
       \<and> (err res \<noteq> None \<and> 200 \<le> Error ep \<and> Error ep \<le> 999 \<and> Error ep \<noteq> 204 \<and> Error ep \<noteq> 304 \<longrightarrow>
            handler run eps r =
              Some (Reply \<lparr>status = Error ep, content_type = None,
                     body = Bytes (out res @
                       (if err res = Some DeadlineExceeded \<or> ctx_err res = Some DeadlineExceeded
                        then CHR 0x0A # ''(timeout)'' @ [CHR 0x0A] else [])),
                     informational = []\<rparr>,
                    [Resolve, Expand, Execute argv (timeout ep)]))
       \<and> (err res \<noteq> None \<and> (Error ep = 101 \<or> Error ep = 204 \<or> Error ep = 304) \<longrightarrow>
            handler run eps r =
              Some (Reply \<lparr>status = Error ep, content_type = None, body = Bytes [],
                     informational = []\<rparr>,
                    [Resolve, Expand, Execute argv (timeout ep)]))
       \<and> (err res \<noteq> None \<and> 100 \<le> Error ep \<and> Error ep \<le> 199 \<and> Error ep \<noteq> 101 \<longrightarrow>
            handler run eps r =
              Some (Reply \<lparr>status = 200, content_type = None,
                     body = Bytes (out res @
                       (if err res = Some DeadlineExceeded \<or> ctx_err res = Some DeadlineExceeded
                        then CHR 0x0A # ''(timeout)'' @ [CHR 0x0A] else [])),
                     informational = [Error ep]\<rparr>,
                    [Resolve, Expand, Execute argv (timeout ep)]))
       \<and> (err res \<noteq> None \<and> (Error ep < 100 \<or> 999 < Error ep) \<longrightarrow>
            handler run eps r = Some (Panic, [Resolve, Expand, Execute argv (timeout ep)]))
       \<and> Error ep = (if Error d = 0 then 500 else Error d)"
proof -
  have h: "handler run eps r = Some (respond ep res, [Resolve, Expand, Execute argv (timeout ep)])"
    using handler_runs[OF assms(2,4,5) mustEndpointFromFile_fields(8)[OF assms(1)], of run]
      assms(6) by simp
  show ?thesis
    unfolding h
    using respond_success[of res ep] respond_failure_with_body[of res ep]
      respond_failure_without_body[of res ep] respond_failure_interim[of res ep]
      respond_failure_panic[of res ep] mustEndpointFromFile_fields(3)[OF assms(1)]
    by simp
qed

text \<open>The sample endpoint, whose definition gives no status, with a command that
  succeeds, one that fails and one that is cut off.\<close>

theorem command_result_response_witness:
  "mustEndpointFromFile ParseDuration_whole regexp_Compile_plain (def0\<lparr>Error := 0\<rparr>) = Inr ep0
   \<and> Error ep0 = 500
   \<and> r_Method req0 \<noteq> ''HEAD''
   \<and> handler run_ok [ep0, ep1] req0 =
     Some (Reply \<lparr>status = 200, content_type = Some ''text/plain; charset=utf-8'',
            body = Bytes ''echoid=7'', informational = []\<rparr>,
           [Resolve, Expand, Execute [''echo'', ''id=7''] 8000000000])
   \<and> handler run_fail [ep0, ep1] req0 =
     Some (Reply \<lparr>status = 500, content_type = None, body = Bytes ''no'', informational = []\<rparr>,
           [Resolve, Expand, Execute [''echo'', ''id=7''] 8000000000])
   \<and> handler run_slow [ep0, ep1] req0 =
     Some (Reply \<lparr>status = 500, content_type = None,
            body = Bytes (''zz'' @ CHR 0x0A # ''(timeout)'' @ [CHR 0x0A]), informational = []\<rparr>,
           [Resolve, Expand, Execute [''echo'', ''id=7''] 8000000000])"
proof -
  have l: "mustEndpointFromFile ParseDuration_whole regexp_Compile_plain (def0\<lparr>Error := 0\<rparr>) = Inr ep0"
    by (simp add: def0_def ep0_def eval_defs)
  have g: "r_Method req0 \<noteq> ''HEAD''" by (simp add: req0_def)
  have t: "timeout ep0 = 8000000000" "Error ep0 = 500" by (simp_all add: ep0_def)
  show ?thesis
    using command_result_response[OF l find_req0 g auth_req0 template_req0, of run_ok]
      command_result_response[OF l find_req0 g auth_req0 template_req0, of run_fail]
      command_result_response[OF l find_req0 g auth_req0 template_req0, of run_slow]
      l g t
    by (simp add: run_ok_def run_fail_def run_slow_def)
qed

text \<open>The claim as stated fails: the loader accepts the statuses 204 and 42, and with a
  command that fails after printing \<^verbatim>\<open>no\<close> the first endpoint answers 204 without the
  output, and the second one does not answer at all.\<close>

theorem error_status_counterexample:
  "mustEndpointFromFile ParseDuration_whole regexp_Compile_plain (def0\<lparr>Error := 204\<rparr>)
     = Inr (ep0\<lparr>Error := 204\<rparr>)
   \<and> out (run_fail [''echo'', ''id=7''] 8000000000) = ''no''
   \<and> handler run_fail [ep0\<lparr>Error := 204\<rparr>] req0 =
     Some (Reply \<lparr>status = 204, content_type = None, body = Bytes [], informational = []\<rparr>,
           [Resolve, Expand, Execute [''echo'', ''id=7''] 8000000000])
   \<and> mustEndpointFromFile ParseDuration_whole regexp_Compile_plain (def0\<lparr>Error := 42\<rparr>)
     = Inr (ep0\<lparr>Error := 42\<rparr>)
   \<and> handler run_fail [ep0\<lparr>Error := 42\<rparr>] req0 =
     Some (Panic, [Resolve, Expand, Execute [''echo'', ''id=7''] 8000000000])"
proof -
  have l: "mustEndpointFromFile ParseDuration_whole regexp_Compile_plain (def0\<lparr>Error := c\<rparr>)
             = Inr (ep0\<lparr>Error := c\<rparr>)" if "c \<noteq> 0" for c
    using that by (simp add: def0_def ep0_def eval_defs)
  have pv: "pathVars (ep0\<lparr>Error := c\<rparr>) p = pathVars ep0 p" for c p
    by (simp add: pathVars_def split: option.splits)
  have m: "Method ep0 = ''GET''" by (simp add: ep0_def)
  have f: "findEndpoint [ep0\<lparr>Error := c\<rparr>] req0 = Some (ep0\<lparr>Error := c\<rparr>, [''id'' \<mapsto> ''42''])" for c
    by (simp add: pv m pathVars_ep0 req0_def)
  have a: "Header_Get (r_Header req0) (header (ep0\<lparr>Error := c\<rparr>)) = token (ep0\<lparr>Error := c\<rparr>)" for c
    using auth_req0 by simp
  have e: "applyTemplate (Script (ep0\<lparr>Error := c\<rparr>))
             (mergeParams (ep0\<lparr>Error := c\<rparr>) [''id'' \<mapsto> ''42''] req0) = Some (Inr [''echo'', ''id=7''])" for c
    using template_req0 by (simp add: mergeParams_def)
  have s: "Script (ep0\<lparr>Error := c\<rparr>) \<noteq> []" for c by (simp add: ep0_def)
  have h: "handler run_fail [ep0\<lparr>Error := c\<rparr>] req0 =
      Some (respond (ep0\<lparr>Error := c\<rparr>) (run_fail [''echo'', ''id=7''] 8000000000),
            [Resolve, Expand, Execute [''echo'', ''id=7''] 8000000000])" for c
    using handler_runs[OF f a e s, of run_fail] by (simp add: ep0_def)
  have "respond (ep0\<lparr>Error := 204\<rparr>) (run_fail [''echo'', ''id=7''] 8000000000)
          = Reply \<lparr>status = 204, content_type = None, body = Bytes [], informational = []\<rparr>"
    using respond_failure_without_body[of "run_fail [''echo'', ''id=7''] 8000000000" "ep0\<lparr>Error := 204\<rparr>"]
    by (simp add: run_fail_def)
  moreover have "respond (ep0\<lparr>Error := 42\<rparr>) (run_fail [''echo'', ''id=7''] 8000000000) = Panic"
    using respond_failure_panic[of "run_fail [''echo'', ''id=7''] 8000000000" "ep0\<lparr>Error := 42\<rparr>"]
    by (simp add: run_fail_def)
  ultimately show ?thesis using l[of 204] l[of 42] h[of 204] h[of 42]
    by (simp add: run_fail_def)
qed

section \<open>The pattern compiler\<close>

text \<open>
  Claim C9 says that a wildcard segment matches the entire remainder of the path, whatever
  it holds. \<^verbatim>\<open>compileURI\<close> writes the wildcard as a group of \<^verbatim>\<open>.*\<close>, and the dot of an
  expression compiled in Go's default mode matches no line feed: the template
  \<^verbatim>\<open>/files/*rest\<close> is compiled with a wildcard, and the path \<^verbatim>\<open>/files/a\<close>, line feed,
  \<^verbatim>\<open>b\<close> (the request \<^verbatim>\<open>/files/a%0Ab\<close>, which the server decodes) is not matched, so the
  request is answered 404. The group \<^verbatim>\<open>[^/]+\<close> written for a segment \<^verbatim>\<open>:name\<close> does match
  a line feed: the same remainder is accepted as the value of \<^verbatim>\<open>:id\<close>.
\<close>

theorem wildcard_misses_line_feed:
  "mustEndpointFromFile ParseDuration_whole regexp_Compile_plain def_files = Inr ep_files
   \<and> URI ep_files = ''/files/*rest'' \<and> wildcard ep_files
   \<and> pathVars ep_files (''/files/a'' @ [CHR 0x0A] @ ''b'') = None
   \<and> handler run_ok [ep_files] (req0\<lparr>r_Path := ''/files/a'' @ [CHR 0x0A] @ ''b''\<rparr>)
       = Some (Reply (http_Error ''404 page not found'' 404), [])
   \<and> pathVars ep0 (''/run/a'' @ [CHR 0x0A] @ ''b'') = Some [''id'' \<mapsto> ''a'' @ [CHR 0x0A] @ ''b'']"
proof -
  have "captures [Literal ''files''] ''/files'' = Some []" by (simp add: HasPrefix_def)
  from captures_append_wild[OF this, of "''rest''" "''a'' @ [CHR 0x0A] @ ''b''"]
  have "captures [Literal ''files'', Wild ''rest''] (''/files/a'' @ [CHR 0x0A] @ ''b'') = None"
    by simp
  then have p: "pathVars ep_files (''/files/a'' @ [CHR 0x0A] @ ''b'') = None"
    by (simp add: pathVars_def regexp_of_def ep_files_def)
  then have "findEndpoint [ep_files] (req0\<lparr>r_Path := ''/files/a'' @ [CHR 0x0A] @ ''b''\<rparr>) = None"
    by simp
  from handler_not_found[OF this, of run_ok]
  have h: "handler run_ok [ep_files] (req0\<lparr>r_Path := ''/files/a'' @ [CHR 0x0A] @ ''b''\<rparr>)
       = Some (Reply (http_Error ''404 page not found'' 404), [])" .
  have q: "pathVars ep0 (''/run/a'' @ [CHR 0x0A] @ ''b'') = Some [''id'' \<mapsto> ''a'' @ [CHR 0x0A] @ ''b'']"
    by (simp add: pathVars_def ep0_def regexp_of_def HasPrefix_def)
  from load_def_files p h q show ?thesis by (simp add: ep_files_def)
qed

section \<open>The name of the authentication header\<close>

text \<open>
  Claim C10, as amended. For every endpoint compiled by \<^verbatim>\<open>mustEndpointFromFile\<close> that a
  request matches, where the header map of the request holds field names only (as the
  server builds it), and for every spelling \<open>n\<close> of the header name that differs from the
  declared one in the case of letters only: the request passes the check of the header
  (the response is not the 401 of the handler) exactly when the first value the request
  carries under the canonical form of \<open>n\<close> is the token, byte for byte. The
  capitalization declared in the \<^verbatim>\<open>auth\<close> field therefore never shows in the outcome; of
  a header sent more than once only the first value counts.
\<close>

theorem auth_header_name_case_insensitive:
  assumes "mustEndpointFromFile P C d = Inr ep"
      and "findEndpoint eps r = Some (ep, pv)"
      and "\<forall>k \<in> dom (r_Header r). list_all validHeaderFieldByte k"
      and "map toLower n = map toLower (header ep)"
  shows "handler run eps r \<noteq> Some (Reply (http_Error ''unauthorized'' 401), [])
           \<longleftrightarrow> (\<exists>vs. r_Header r (CanonicalMIMEHeaderKey n) = Some (token ep # vs))"
proof -
  from mustEndpointFromFile_fields(1)[OF assms(1)] have t: "token ep \<noteq> []"
    using parseAuth_nonempty by blast
  have g: "Header_Get (r_Header r) (header ep) = Header_Get (r_Header r) n"
    using Header_Get_case_insensitive[OF assms(3) assms(4)] by simp
  show ?thesis
  proof (cases "Header_Get (r_Header r) (header ep) = token ep")
    case True
    with handler_authorized_not_401[OF assms(2) True] Header_Get_eq_token[OF t] g
    show ?thesis by metis
  next
    case False
    with handler_unauthorized[OF assms(2) False] Header_Get_eq_token[OF t] g
    show ?thesis by metis
  qed
qed

theorem auth_header_name_case_insensitive_witness:
  "mustEndpointFromFile ParseDuration_whole regexp_Compile_plain def0 = Inr ep0
   \<and> map toLower ''x-TOKEN'' = map toLower (header ep0)
   \<and> CanonicalMIMEHeaderKey ''x-TOKEN'' = ''X-Token''
   \<and> r_Header req0 ''X-Token'' = Some [token ep0]
   \<and> handler run_ok [ep0, ep1] req0 \<noteq> Some (Reply (http_Error ''unauthorized'' 401), [])"
proof -
  have v: "\<forall>k \<in> dom (r_Header req0). list_all validHeaderFieldByte k"
    by (simp add: req0_def validHeaderFieldByte_def)
  have l: "map toLower ''x-TOKEN'' = map toLower (header ep0)"
    by code_simp
  have c: "CanonicalMIMEHeaderKey ''x-TOKEN'' = ''X-Token''"
    by code_simp
  have h: "r_Header req0 ''X-Token'' = Some [token ep0]" by (simp add: req0_def ep0_def)
  from auth_header_name_case_insensitive[OF load_def0 find_req0 v l, of run_ok] c h
  have "handler run_ok [ep0, ep1] req0 \<noteq> Some (Reply (http_Error ''unauthorized'' 401), [])" by simp
  with load_def0 l c h show ?thesis by simp
qed

text \<open>The claim as stated fails for a header sent twice: the request carries a header of
  the right name whose value is the token, after one whose value is not, and is answered
  401.\<close>

theorem repeated_header_counterexample:
  "header ep0 = ''X-Token'' \<and> token ep0 = ''abc''
   \<and> r_Header (req0\<lparr>r_Header := [''X-Token'' \<mapsto> [''nope'', ''abc'']]\<rparr>) ''X-Token''
        = Some [''nope'', ''abc'']
   \<and> findEndpoint [ep0, ep1] (req0\<lparr>r_Header := [''X-Token'' \<mapsto> [''nope'', ''abc'']]\<rparr>)
        = Some (ep0, [''id'' \<mapsto> ''42''])
   \<and> handler run_ok [ep0, ep1] (req0\<lparr>r_Header := [''X-Token'' \<mapsto> [''nope'', ''abc'']]\<rparr>)
        = Some (Reply (http_Error ''unauthorized'' 401), [])"
proof -
  let ?r = "req0\<lparr>r_Header := [''X-Token'' \<mapsto> [''nope'', ''abc'']]\<rparr>"
  have f: "findEndpoint [ep0, ep1] ?r = Some (ep0, [''id'' \<mapsto> ''42''])"
    by (rule find_run42) (simp_all add: req0_def)
  have "Header_Get (r_Header ?r) (header ep0) \<noteq> token ep0"
    by (simp add: Header_Get_def ep0_def CanonicalMIMEHeaderKey_def validHeaderFieldByte_def
        toUpper_def toLower_def)
  from handler_unauthorized[OF f this, of run_ok] f show ?thesis
    by (simp add: ep0_def)
qed

section \<open>The template expander\<close>

text \<open>
  Claim C2 says that the text put in place of a placeholder is never scanned again. The
  loop of \<^verbatim>\<open>applyTemplate\<close> searches the whole of \<^verbatim>\<open>res\<close> from its start after every
  replacement, so a value that holds a placeholder is expanded in turn: with \<^verbatim>\<open>a\<close> bound
  to \<^verbatim>\<open>{b}\<close> and \<^verbatim>\<open>b\<close> to \<^verbatim>\<open>x\<close>, the argument \<^verbatim>\<open>{a}\<close> becomes \<^verbatim>\<open>x\<close>, not
  \<^verbatim>\<open>{b}\<close>.
\<close>

theorem replacement_is_rescanned:
  "applyTemplate [''{a}''] [''a'' \<mapsto> ''{b}'', ''b'' \<mapsto> ''x''] = Some (Inr [''x''])"
  by (simp add: expand.simps lookup_def)

text \<open>
  Claim C8 says that an argument with an unclosed brace causes a template error. With
  \<^verbatim>\<open>a\<close> bound to \<^verbatim>\<open>{a}\<close>, the argument \<^verbatim>\<open>{a}{\<close> is replaced by itself in every round:
  the loop never ends, and no error is ever returned.
\<close>

theorem unclosed_placeholder_never_answered:
  "applyTemplate [''{a}{''] [''a'' \<mapsto> ''{a}''] = None"
proof (cases "expand [''a'' \<mapsto> ''{a}''] ''{a}{'' ''{a}{''")
  case None
  then show ?thesis by simp
next
  case (Some y)
  from expand_self_reference[OF Some] show ?thesis by simp
qed

end
